theory Spec2Isabelle
  imports Complex_Main "HOL-Library.AList"
begin

section \<open>The selection manager of the artwork table\<close>

text \<open>
  A shallow embedding of the class \<open>SelectionManager\<close> (\<open>SelectionManager.ts\<close>, together
  with the constants of \<open>constants.ts\<close> and the types of \<open>state.ts\<close>).

  Conventions of the embedding:
  \<^item> JavaScript numbers that hold row identifiers, page numbers and timestamps are
    mathematical integers (\<open>int\<close>); the loss of precision above \<open>2^53\<close> is outside the
    model.
  \<^item> The count of a bulk selection is a JavaScript number as it reaches \<open>bulkSelect\<close>, whose
    guard is the only check it gets: \<open>NaN\<close>, an infinity, or a finite number, integral or
    not (a rational; rounding is outside the model).
  \<^item> A JavaScript \<open>Set\<close> is the list of its elements in insertion order (without
    repetition); a JavaScript \<open>Map\<close> is the list of its entries in insertion order (keys
    without repetition).
  \<^item> Mutation is explicit state passing over a record \<open>world\<close> that holds the manager's
    fields and the part of the browser it touches: \<open>localStorage\<close>, the console, the clock
    and the calls made to the page fetcher.
  \<^item> \<open>Date.now()\<close> reads a clock \<open>nat \<Rightarrow> int\<close>: the \<open>n\<close>-th call of a session returns
    \<open>clock n\<close>, and the world counts the calls.
\<close>

subsection \<open>JavaScript sets and maps\<close>

type_synonym 'a js_set = "'a list"
type_synonym ('k, 'v) js_map = "('k \<times> 'v) list"

definition Set_add :: "'a \<Rightarrow> 'a js_set \<Rightarrow> 'a js_set" where
  "Set_add x xs = (if x \<in> set xs then xs else xs @ [x])"

definition Set_delete :: "'a \<Rightarrow> 'a js_set \<Rightarrow> 'a js_set" where
  "Set_delete x xs = removeAll x xs"

definition Set_has :: "'a \<Rightarrow> 'a js_set \<Rightarrow> bool" where
  "Set_has x xs = (x \<in> set xs)"

definition Set_size :: "'a js_set \<Rightarrow> nat" where
  "Set_size xs = length xs"

text \<open>\<open>new Set(iterable)\<close> adds the elements one after the other to an empty set.\<close>

definition new_Set :: "'a list \<Rightarrow> 'a js_set" where
  "new_Set xs = fold Set_add xs []"

definition Array_from :: "'a js_set \<Rightarrow> 'a list" where
  "Array_from xs = xs"

definition Map_has :: "'k \<Rightarrow> ('k, 'v) js_map \<Rightarrow> bool" where
  "Map_has k m = (k \<in> fst ` set m)"

definition Map_get :: "'k \<Rightarrow> ('k, 'v) js_map \<Rightarrow> 'v option" where
  "Map_get k m = map_of m k"

text \<open>\<open>Map.set\<close> overwrites the value of a key in place and appends a new key at the end.\<close>

definition Map_set :: "'k \<Rightarrow> 'v \<Rightarrow> ('k, 'v) js_map \<Rightarrow> ('k, 'v) js_map" where
  "Map_set k v m = AList.update k v m"

definition Map_delete :: "'k \<Rightarrow> ('k, 'v) js_map \<Rightarrow> ('k, 'v) js_map" where
  "Map_delete k m = AList.delete k m"

definition new_Map :: "('k \<times> 'v) list \<Rightarrow> ('k, 'v) js_map" where
  "new_Map es = fold (\<lambda>(k, v). Map_set k v) es []"

subsection \<open>JavaScript numbers\<close>

datatype js_number = NaN | NegInfinity | PosInfinity | Num rat

text \<open>\<open>a < b\<close>: false when an operand is \<open>NaN\<close>.\<close>

fun js_less :: "js_number \<Rightarrow> js_number \<Rightarrow> bool" where
  "js_less NaN b = False"
| "js_less a NaN = False"
| "js_less PosInfinity b = False"
| "js_less a NegInfinity = False"
| "js_less NegInfinity b = True"
| "js_less a PosInfinity = True"
| "js_less (Num a) (Num b) = (a < b)"

text \<open>\<open>a <= b\<close>: false when an operand is \<open>NaN\<close>, and otherwise the negation of \<open>b < a\<close>.\<close>

definition js_less_eq :: "js_number \<Rightarrow> js_number \<Rightarrow> bool" where
  "js_less_eq a b = (a \<noteq> NaN \<and> b \<noteq> NaN \<and> \<not> js_less b a)"

text \<open>\<open>a > b\<close> is \<open>b < a\<close>.\<close>

definition js_greater :: "js_number \<Rightarrow> js_number \<Rightarrow> bool" where
  "js_greater a b = js_less b a"

text \<open>\<open>a - n\<close> for the length \<open>n\<close> of an array.\<close>

fun js_minus :: "js_number \<Rightarrow> nat \<Rightarrow> js_number" where
  "js_minus NaN n = NaN"
| "js_minus NegInfinity n = NegInfinity"
| "js_minus PosInfinity n = PosInfinity"
| "js_minus (Num a) n = Num (a - of_nat n)"

text \<open>
  \<open>array.slice(0, end)\<close>. The end is truncated towards zero (\<open>NaN\<close> counts as \<open>0\<close>); a
  negative end counts from the end of the array; the result stops at the end of the array.
\<close>

fun Array_slice :: "'a list \<Rightarrow> js_number \<Rightarrow> 'a list" where
  "Array_slice xs NaN = []"
| "Array_slice xs NegInfinity = []"
| "Array_slice xs PosInfinity = xs"
| "Array_slice xs (Num e) =
     (let relativeEnd = (if 0 \<le> e then \<lfloor>e\<rfloor> else \<lceil>e\<rceil>)
      in if relativeEnd < 0 then take (nat (int (length xs) + relativeEnd)) xs
         else take (nat relativeEnd) xs)"

subsection \<open>Types (\<open>state.ts\<close>) and constants (\<open>constants.ts\<close>)\<close>

record BulkSelection =
  bulk_count :: js_number
  bulk_startPage :: int
  bulk_timestamp :: int

record SelectionManagerState =
  selectedIds :: "int js_set"
  pageSelections :: "(int, int js_set) js_map"
  totalSelected :: int
  lastBulkSelection :: "BulkSelection option"

text \<open>
  The value that \<open>JSON.parse\<close> returns for a stored text. The model covers the objects whose
  properties, where present, have the types of \<open>StoredSelectionData\<close>; the properties
  \<open>selectedIds\<close>, \<open>pageSelections\<close> and \<open>timestamp\<close> may be absent (\<open>None\<close>, JavaScript's
  \<open>undefined\<close>). The property names of the object \<open>pageSelections\<close> are decimal numerals,
  represented by the integers they denote; the list is the order in which the properties
  were created.
\<close>

type_synonym js_object = "(int \<times> int list) list"

record StoredSelectionData =
  data_selectedIds :: "int list option"
  data_pageSelections :: "js_object option"
  data_totalSelected :: int
  data_timestamp :: "int option"

definition MAX_BULK_SELECTION :: js_number where
  "MAX_BULK_SELECTION = Num 1000"

definition STORAGE_EXPIRY_HOURS :: int where
  "STORAGE_EXPIRY_HOURS = 24"

definition SELECTION_STATE :: string where
  "SELECTION_STATE = ''artwork-table-selections''"

subsection \<open>Objects and JSON\<close>

text \<open>
  Own properties are enumerated with the array indices first (integers from \<open>0\<close> to
  \<open>2^32 - 2\<close>), in ascending order, and then the other names in creation order. This is the
  order of \<open>Object.entries\<close> and of the members that \<open>JSON.stringify\<close> writes.
\<close>

definition is_array_index :: "int \<Rightarrow> bool" where
  "is_array_index k = (0 \<le> k \<and> k < 4294967295)"

definition Object_fromEntries :: "(int \<times> int list) list \<Rightarrow> js_object" where
  "Object_fromEntries es = fold (\<lambda>(k, v). AList.update k v) es []"

definition Object_entries :: "js_object \<Rightarrow> (int \<times> int list) list" where
  "Object_entries obj =
     sort_key fst (filter (\<lambda>e. is_array_index (fst e)) obj)
       @ filter (\<lambda>e. \<not> is_array_index (fst e)) obj"

text \<open>\<open>parseInt(page, 10)\<close> on the decimal numeral of an integer is that integer.\<close>

definition parseInt :: "int \<Rightarrow> int" where
  "parseInt page = page"

text \<open>
  A text held by \<open>localStorage\<close>, up to what \<open>JSON.parse\<close> makes of it: the empty string, a
  non-empty text that is not JSON, or the JSON text of an object, whose members are listed in
  the order of the text.
\<close>

datatype stored_text = Empty_text | Not_JSON | JSON StoredSelectionData

datatype js_error =
    SyntaxError
  | TypeError
  | QuotaExceededError
  | Invalid_bulk_selection_count js_number

definition JSON_stringify :: "StoredSelectionData \<Rightarrow> stored_text" where
  "JSON_stringify d =
     JSON (d\<lparr>data_pageSelections := map_option Object_entries (data_pageSelections d)\<rparr>)"

text \<open>A repeated member name overwrites the earlier value of that property.\<close>

definition JSON_parse :: "stored_text \<Rightarrow> js_error + StoredSelectionData" where
  "JSON_parse t =
     (case t of
        Empty_text \<Rightarrow> Inl SyntaxError
      | Not_JSON \<Rightarrow> Inl SyntaxError
      | JSON d \<Rightarrow>
          Inr (d\<lparr>data_pageSelections := map_option Object_fromEntries (data_pageSelections d)\<rparr>))"

subsection \<open>The browser: \<open>localStorage\<close>, console, clock, page fetcher\<close>

text \<open>\<open>setItem\<close> throws when the quota is exceeded; \<open>full\<close> says that it is.\<close>

record localStorage =
  items :: "string \<Rightarrow> stored_text option"
  full :: bool

definition localStorage_getItem :: "string \<Rightarrow> localStorage \<Rightarrow> stored_text option" where
  "localStorage_getItem k ls = items ls k"

definition localStorage_setItem ::
  "string \<Rightarrow> stored_text \<Rightarrow> localStorage \<Rightarrow> js_error + localStorage" where
  "localStorage_setItem k v ls =
     (if full ls then Inl QuotaExceededError else Inr (ls\<lparr>items := (items ls)(k \<mapsto> v)\<rparr>))"

definition localStorage_removeItem :: "string \<Rightarrow> localStorage \<Rightarrow> localStorage" where
  "localStorage_removeItem k ls = ls\<lparr>items := (items ls)(k := None)\<rparr>"

text \<open>The reason with which a page fetch rejects, and the settled promise of \<open>bulkSelect\<close>.\<close>

type_synonym rejection = string

datatype promise = Fulfilled | Rejected rejection

type_synonym page_fetcher = "int \<Rightarrow> rejection + int list"

datatype console_entry =
    Warn_failed_to_save js_error
  | Warn_failed_to_load js_error
  | Warn_too_many_pages
  | Error_fetching_page int rejection

record world =
  state :: SelectionManagerState
  storageKey :: string
  storage :: localStorage
  console :: "console_entry list"
  ticks :: nat
  fetched :: "int list"

type_synonym clock = "nat \<Rightarrow> int"

definition Date_now :: "clock \<Rightarrow> world \<Rightarrow> int \<times> world" where
  "Date_now clock w = (clock (ticks w), w\<lparr>ticks := Suc (ticks w)\<rparr>)"

subsection \<open>Private methods\<close>

definition updateTotalSelected :: "world \<Rightarrow> world" where
  "updateTotalSelected w =
     w\<lparr>state := (state w)\<lparr>totalSelected := int (Set_size (selectedIds (state w)))\<rparr>\<rparr>"

definition dataToStore :: "SelectionManagerState \<Rightarrow> int \<Rightarrow> StoredSelectionData" where
  "dataToStore s now =
     \<lparr>data_selectedIds = Some (Array_from (selectedIds s)),
      data_pageSelections =
        Some (Object_fromEntries (map (\<lambda>(page, ids). (page, Array_from ids)) (pageSelections s))),
      data_totalSelected = totalSelected s,
      data_timestamp = Some now\<rparr>"

definition saveToStorage :: "clock \<Rightarrow> world \<Rightarrow> world" where
  "saveToStorage clock w =
     (case Date_now clock w of
        (now, w1) \<Rightarrow>
          (case localStorage_setItem (storageKey w1)
                  (JSON_stringify (dataToStore (state w1) now)) (storage w1) of
             Inl error \<Rightarrow> w1\<lparr>console := console w1 @ [Warn_failed_to_save error]\<rparr>
           | Inr ls \<Rightarrow> w1\<lparr>storage := ls\<rparr>))"

text \<open>The \<open>catch\<close> block of \<open>loadFromStorage\<close>.\<close>

definition load_failed :: "js_error \<Rightarrow> world \<Rightarrow> world" where
  "load_failed error w =
     w\<lparr>console := console w @ [Warn_failed_to_load error],
       storage := localStorage_removeItem (storageKey w) (storage w)\<rparr>"

definition expiryTime :: int where
  "expiryTime = STORAGE_EXPIRY_HOURS * 60 * 60 * 1000"

text \<open>
  An absent \<open>timestamp\<close> makes the difference \<open>NaN\<close>, which is not greater than the expiry
  time. \<open>new Set(undefined)\<close> is the empty set; \<open>Object.entries(undefined)\<close> throws a
  \<open>TypeError\<close>, after \<open>selectedIds\<close> has been assigned.
\<close>

definition loadFromStorage :: "clock \<Rightarrow> world \<Rightarrow> world" where
  "loadFromStorage clock w =
     (case localStorage_getItem (storageKey w) (storage w) of
        None \<Rightarrow> w
      | Some stored \<Rightarrow>
          if stored = Empty_text then w
          else
            (case JSON_parse stored of
               Inl error \<Rightarrow> load_failed error w
             | Inr data \<Rightarrow>
                 (case Date_now clock w of
                    (now, w1) \<Rightarrow>
                      if (case data_timestamp data of
                            None \<Rightarrow> False
                          | Some t \<Rightarrow> now - t > expiryTime)
                      then w1\<lparr>storage := localStorage_removeItem (storageKey w1) (storage w1)\<rparr>
                      else
                        let w2 = w1\<lparr>state := (state w1)
                                   \<lparr>selectedIds :=
                                      new_Set (case data_selectedIds data of
                                                 None \<Rightarrow> [] | Some ids \<Rightarrow> ids)\<rparr>\<rparr>
                        in (case data_pageSelections data of
                              None \<Rightarrow> load_failed TypeError w2
                            | Some obj \<Rightarrow>
                                w2\<lparr>state := (state w2)
                                   \<lparr>pageSelections :=
                                      new_Map (map (\<lambda>(page, ids). (parseInt page, new_Set ids))
                                                 (Object_entries obj)),
                                    totalSelected := data_totalSelected data\<rparr>\<rparr>))))"

subsection \<open>Construction\<close>

definition initial_state :: SelectionManagerState where
  "initial_state =
     \<lparr>selectedIds = new_Set [], pageSelections = new_Map [], totalSelected = 0,
      lastBulkSelection = None\<rparr>"

text \<open>
  A new manager in a new session of the browser: the console is empty, the clock has not
  been read, no page has been fetched, and \<open>localStorage\<close> is what earlier sessions left.
\<close>

definition constructor :: "clock \<Rightarrow> string \<Rightarrow> localStorage \<Rightarrow> world" where
  "constructor clock key ls =
     loadFromStorage clock
       \<lparr>state = initial_state, storageKey = key, storage = ls, console = [], ticks = 0,
        fetched = []\<rparr>"

subsection \<open>Public methods\<close>

definition selectRow :: "clock \<Rightarrow> int \<Rightarrow> int \<Rightarrow> world \<Rightarrow> world" where
  "selectRow clock pageNumber rowId w =
     (let s1 = (state w)\<lparr>selectedIds := Set_add rowId (selectedIds (state w))\<rparr>;
          s2 = (if \<not> Map_has pageNumber (pageSelections s1)
                then s1\<lparr>pageSelections := Map_set pageNumber (new_Set []) (pageSelections s1)\<rparr>
                else s1);
          s3 = (case Map_get pageNumber (pageSelections s2) of
                  None \<Rightarrow> s2
                | Some ids \<Rightarrow>
                    s2\<lparr>pageSelections := Map_set pageNumber (Set_add rowId ids) (pageSelections s2)\<rparr>)
      in saveToStorage clock (updateTotalSelected (w\<lparr>state := s3\<rparr>)))"

definition deselectRow :: "clock \<Rightarrow> int \<Rightarrow> int \<Rightarrow> world \<Rightarrow> world" where
  "deselectRow clock pageNumber rowId w =
     (let s1 = (state w)\<lparr>selectedIds := Set_delete rowId (selectedIds (state w))\<rparr>;
          s2 = (case Map_get pageNumber (pageSelections s1) of
                  None \<Rightarrow> s1
                | Some ids \<Rightarrow>
                    let ids' = Set_delete rowId ids;
                        m = Map_set pageNumber ids' (pageSelections s1)
                    in if Set_size ids' = 0
                       then s1\<lparr>pageSelections := Map_delete pageNumber m\<rparr>
                       else s1\<lparr>pageSelections := m\<rparr>)
      in saveToStorage clock (updateTotalSelected (w\<lparr>state := s2\<rparr>)))"

definition selectAllOnPage :: "clock \<Rightarrow> int \<Rightarrow> int list \<Rightarrow> world \<Rightarrow> world" where
  "selectAllOnPage clock pageNumber rowIds w =
     (let s1 = (state w)\<lparr>selectedIds := fold Set_add rowIds (selectedIds (state w))\<rparr>;
          s2 = s1\<lparr>pageSelections := Map_set pageNumber (new_Set rowIds) (pageSelections s1)\<rparr>
      in saveToStorage clock (updateTotalSelected (w\<lparr>state := s2\<rparr>)))"

definition deselectAllOnPage :: "clock \<Rightarrow> int \<Rightarrow> world \<Rightarrow> world" where
  "deselectAllOnPage clock pageNumber w =
     (let s1 = (case Map_get pageNumber (pageSelections (state w)) of
                  None \<Rightarrow> state w
                | Some ids \<Rightarrow>
                    (state w)
                      \<lparr>selectedIds := fold Set_delete ids (selectedIds (state w)),
                       pageSelections := Map_delete pageNumber (pageSelections (state w))\<rparr>)
      in saveToStorage clock (updateTotalSelected (w\<lparr>state := s1\<rparr>)))"

text \<open>
  The loop of \<open>performBulkSelection\<close>. The fetcher is a function of the page: the loop asks
  for every page at most once. A rejected fetch is caught inside the loop, logged, and ends
  the loop. The loop goes on only while the next page number is at most 1000, and this is
  what makes it end whatever the count and the fetcher are.
\<close>

function bulk_loop :: "clock \<Rightarrow> page_fetcher \<Rightarrow> js_number \<Rightarrow> int \<Rightarrow> world \<Rightarrow> world" where
  "bulk_loop clock getPageData remainingCount currentPage w =
     (if js_greater remainingCount (Num 0) then
        (let w1 = w\<lparr>fetched := fetched w @ [currentPage]\<rparr>
         in case getPageData currentPage of
              Inl error \<Rightarrow> w1\<lparr>console := console w1 @ [Error_fetching_page currentPage error]\<rparr>
            | Inr pageIds \<Rightarrow>
                if length pageIds = 0 then w1
                else
                  (let idsToSelect = Array_slice pageIds remainingCount;
                       w2 = selectAllOnPage clock currentPage idsToSelect w1
                   in if currentPage + 1 > 1000
                      then w2\<lparr>console := console w2 @ [Warn_too_many_pages]\<rparr>
                      else bulk_loop clock getPageData
                             (js_minus remainingCount (length idsToSelect)) (currentPage + 1) w2))
      else w)"
  by pat_completeness auto
termination
  by (relation "measure (\<lambda>(clock, getPageData, remainingCount, currentPage, w).
        nat (1000 - currentPage))")
     auto

declare bulk_loop.simps [simp del]

definition performBulkSelection ::
  "clock \<Rightarrow> int \<Rightarrow> js_number \<Rightarrow> page_fetcher \<Rightarrow> world \<Rightarrow> promise \<times> world" where
  "performBulkSelection clock startPage count getPageData w =
     (case Date_now clock w of
        (now, w1) \<Rightarrow>
          let w2 = w1\<lparr>state := (state w1)
                     \<lparr>lastBulkSelection :=
                        Some \<lparr>bulk_count = count, bulk_startPage = startPage,
                              bulk_timestamp = now\<rparr>\<rparr>\<rparr>;
              w3 = bulk_loop clock getPageData count startPage w2
          in (Fulfilled, saveToStorage clock w3))"

text \<open>
  \<open>bulkSelect\<close> throws on a count out of range, before anything else; otherwise it returns
  the promise of \<open>performBulkSelection\<close>.
\<close>

definition bulkSelect ::
  "clock \<Rightarrow> int \<Rightarrow> js_number \<Rightarrow> page_fetcher \<Rightarrow> world \<Rightarrow> (js_error + promise) \<times> world" where
  "bulkSelect clock startPage count getPageData w =
     (if js_less_eq count (Num 0) \<or> js_greater count MAX_BULK_SELECTION
      then (Inl (Invalid_bulk_selection_count count), w)
      else (case performBulkSelection clock startPage count getPageData w of
              (p, w') \<Rightarrow> (Inr p, w')))"

definition getPageSelections :: "int \<Rightarrow> world \<Rightarrow> int js_set" where
  "getPageSelections pageNumber w =
     (case Map_get pageNumber (pageSelections (state w)) of
        None \<Rightarrow> new_Set []
      | Some ids \<Rightarrow> ids)"

definition isRowSelected :: "int \<Rightarrow> world \<Rightarrow> bool" where
  "isRowSelected rowId w = Set_has rowId (selectedIds (state w))"

definition getTotalSelected :: "world \<Rightarrow> int" where
  "getTotalSelected w = totalSelected (state w)"

definition clearAllSelections :: "clock \<Rightarrow> world \<Rightarrow> world" where
  "clearAllSelections clock w =
     saveToStorage clock
       (w\<lparr>state := (state w)
            \<lparr>selectedIds := [], pageSelections := [], totalSelected := 0,
             lastBulkSelection := None\<rparr>\<rparr>)"

subsection \<open>Sequences of mutating calls\<close>

datatype call =
    SelectRow int int
  | DeselectRow int int
  | SelectAllOnPage int "int list"
  | DeselectAllOnPage int
  | BulkSelect int js_number page_fetcher
  | ClearAllSelections

fun perform :: "clock \<Rightarrow> call \<Rightarrow> world \<Rightarrow> world" where
  "perform clock (SelectRow p i) w = selectRow clock p i w"
| "perform clock (DeselectRow p i) w = deselectRow clock p i w"
| "perform clock (SelectAllOnPage p ids) w = selectAllOnPage clock p ids w"
| "perform clock (DeselectAllOnPage p) w = deselectAllOnPage clock p w"
| "perform clock (BulkSelect p n f) w = snd (bulkSelect clock p n f w)"
| "perform clock ClearAllSelections w = clearAllSelections clock w"

fun is_BulkSelect :: "call \<Rightarrow> bool" where
  "is_BulkSelect (BulkSelect p n f) = True"
| "is_BulkSelect c = False"

definition run :: "clock \<Rightarrow> call list \<Rightarrow> world \<Rightarrow> world" where
  "run clock calls w = fold (perform clock) calls w"

subsection \<open>Predicates on states and calls\<close>

text \<open>The union of the sets of all pages.\<close>

definition union_of_pages :: "SelectionManagerState \<Rightarrow> int set" where
  "union_of_pages s = \<Union> (set ` snd ` set (pageSelections s))"

text \<open>
  The lists of a state represent a \<open>Set\<close> and a \<open>Map\<close> of \<open>Set\<close>s: no element and no key
  occurs twice.
\<close>

definition well_formed :: "SelectionManagerState \<Rightarrow> bool" where
  "well_formed s \<longleftrightarrow>
     distinct (selectedIds s) \<and> distinct (map fst (pageSelections s)) \<and>
     list_all (\<lambda>(p, ids). distinct ids) (pageSelections s)"

text \<open>
  A call is \<^emph>\<open>page-consistent\<close> in a world when it treats every identifier as a row of one
  page and gives complete lists: \<open>deselectRow\<close> names the only page on which the row is
  selected, \<open>deselectAllOnPage\<close> clears a page whose rows are selected on no other page,
  and \<open>selectAllOnPage\<close> and \<open>bulkSelect\<close> drop no identifier from the set of a page.
\<close>

fun page_consistent :: "clock \<Rightarrow> world \<Rightarrow> call \<Rightarrow> bool" where
  "page_consistent clock w (SelectRow p i) = True"
| "page_consistent clock w (DeselectRow p i) =
     list_all (\<lambda>(q, ids). i \<in> set ids \<longrightarrow> q = p) (pageSelections (state w))"
| "page_consistent clock w (SelectAllOnPage p ids) = (set (getPageSelections p w) \<subseteq> set ids)"
| "page_consistent clock w (DeselectAllOnPage p) =
     list_all (\<lambda>(q, ids). q \<noteq> p \<longrightarrow> set ids \<inter> set (getPageSelections p w) = {})
       (pageSelections (state w))"
| "page_consistent clock w (BulkSelect p n f) =
     list_all (\<lambda>(q, ids). set ids \<subseteq> set (getPageSelections q (snd (bulkSelect clock p n f w))))
       (pageSelections (state w))"
| "page_consistent clock w ClearAllSelections = True"

fun page_consistent_run :: "clock \<Rightarrow> world \<Rightarrow> call list \<Rightarrow> bool" where
  "page_consistent_run clock w [] = True"
| "page_consistent_run clock w (c # cs) =
     (page_consistent clock w c \<and> page_consistent_run clock (perform clock c w) cs)"

text \<open>
  Predicates of the proofs: the count is the length of the list of selected rows; the
  selected rows are the rows of the page sets; and what a run of the bulk loop from page
  \<open>cp\<close> may change.
\<close>

definition counted :: "SelectionManagerState \<Rightarrow> bool" where
  "counted s \<longleftrightarrow> totalSelected s = int (length (selectedIds s))"

definition covered :: "SelectionManagerState \<Rightarrow> bool" where
  "covered s \<longleftrightarrow>
     (\<forall>x. x \<in> set (selectedIds s) \<longleftrightarrow>
          (\<exists>p ids. map_of (pageSelections s) p = Some ids \<and> x \<in> set ids))"

definition grows :: "int \<Rightarrow> world \<Rightarrow> world \<Rightarrow> bool" where
  "grows cp w w' \<longleftrightarrow>
     set (selectedIds (state w)) \<subseteq> set (selectedIds (state w')) \<and>
     (\<forall>x. x \<in> set (selectedIds (state w')) \<longrightarrow> x \<notin> set (selectedIds (state w)) \<longrightarrow>
          (\<exists>q ids. map_of (pageSelections (state w')) q = Some ids \<and> x \<in> set ids)) \<and>
     (\<forall>q. map_of (pageSelections (state w')) q = map_of (pageSelections (state w)) q \<or>
          (\<exists>ids. map_of (pageSelections (state w')) q = Some ids \<and>
                 set ids \<subseteq> set (selectedIds (state w')))) \<and>
     (\<forall>q. q < cp \<longrightarrow>
          map_of (pageSelections (state w')) q = map_of (pageSelections (state w)) q)"

text \<open>
  The number of identifiers that the fetcher delivers for a page, and the trace of a run of
  the bulk loop that starts at page \<open>cp\<close> with an integer number \<open>rc\<close> of rows to go and
  fetches \<open>n\<close> pages: the pages are consecutive; every page but the last delivered
  identifiers, left the count unmet, and has a number below 1000; every page that delivered
  identifiers holds exactly the first of them that were still to go, all selected; and the
  last page failed, was empty, has a number of 1000 or more, or covered the rest of the
  count.
\<close>

definition page_size :: "page_fetcher \<Rightarrow> int \<Rightarrow> int" where
  "page_size f p = (case f p of Inl e \<Rightarrow> 0 | Inr ids \<Rightarrow> int (length ids))"

definition loop_trace :: "page_fetcher \<Rightarrow> int \<Rightarrow> int \<Rightarrow> nat \<Rightarrow> world \<Rightarrow> world \<Rightarrow> bool" where
  "loop_trace f rc cp n w w' \<longleftrightarrow>
     fetched w' = fetched w @ map (\<lambda>k. cp + int k) [0..<n] \<and>
     int n \<le> max 0 rc \<and> (0 < rc \<longrightarrow> 0 < n) \<and>
     (\<forall>k. Suc k < n \<longrightarrow>
        (\<exists>ids. f (cp + int k) = Inr ids \<and> ids \<noteq> []) \<and>
        (\<Sum>j<Suc k. page_size f (cp + int j)) < rc \<and> cp + int k < 1000) \<and>
     (\<forall>k ids. k < n \<longrightarrow> f (cp + int k) = Inr ids \<longrightarrow> ids \<noteq> [] \<longrightarrow>
        (\<Sum>j<k. page_size f (cp + int j)) < rc \<and>
        map_of (pageSelections (state w')) (cp + int k)
          = Some (new_Set (take (nat (rc - (\<Sum>j<k. page_size f (cp + int j)))) ids)) \<and>
        set (take (nat (rc - (\<Sum>j<k. page_size f (cp + int j)))) ids)
          \<subseteq> set (selectedIds (state w'))) \<and>
     (0 < n \<longrightarrow>
        (\<exists>e. f (cp + int n - 1) = Inl e) \<or> f (cp + int n - 1) = Inr [] \<or> 1000 \<le> cp + int n - 1
        \<or> rc \<le> (\<Sum>k<n. page_size f (cp + int k))) \<and>
     (\<forall>e. 0 < n \<longrightarrow> f (cp + int n - 1) = Inl e \<longrightarrow>
        Error_fetching_page (cp + int n - 1) e \<in> set (console w')) \<and>
     (0 < n \<longrightarrow> 1000 \<le> cp + int n - 1 \<longrightarrow> f (cp + int n - 1) \<noteq> Inr [] \<longrightarrow>
        (\<forall>e. f (cp + int n - 1) \<noteq> Inl e) \<longrightarrow> Warn_too_many_pages \<in> set (console w'))"

section \<open>Properties\<close>

subsection \<open>Sets and maps\<close>

lemma set_Set_add [simp]: "set (Set_add x xs) = insert x (set xs)"
  by (auto simp: Set_add_def)

lemma distinct_Set_add [simp]: "distinct (Set_add x xs) = distinct xs"
  by (auto simp: Set_add_def)

lemma set_fold_Set_add [simp]: "set (fold Set_add ys xs) = set ys \<union> set xs"
  by (induction ys arbitrary: xs) auto

lemma distinct_fold_Set_add [simp]: "distinct (fold Set_add ys xs) = distinct xs"
  by (induction ys arbitrary: xs) auto

lemma set_new_Set [simp]: "set (new_Set xs) = set xs"
  by (simp add: new_Set_def)

lemma distinct_new_Set [simp]: "distinct (new_Set xs)"
  by (simp add: new_Set_def)

lemma fold_Set_add_distinct: "distinct (ys @ xs) \<Longrightarrow> fold Set_add xs ys = ys @ xs"
  by (induction xs arbitrary: ys) (auto simp: Set_add_def)

lemma new_Set_distinct: "distinct xs \<Longrightarrow> new_Set xs = xs"
  using fold_Set_add_distinct [of "[]" xs] by (simp add: new_Set_def)

lemma set_Set_delete [simp]: "set (Set_delete x xs) = set xs - {x}"
  by (auto simp: Set_delete_def)

lemma distinct_Set_delete [simp]: "distinct xs \<Longrightarrow> distinct (Set_delete x xs)"
  by (simp add: Set_delete_def distinct_removeAll)

lemma set_fold_Set_delete [simp]: "set (fold Set_delete ys xs) = set xs - set ys"
  by (induction ys arbitrary: xs) auto

lemma distinct_fold_Set_delete [simp]: "distinct xs \<Longrightarrow> distinct (fold Set_delete ys xs)"
  by (induction ys arbitrary: xs) auto

lemma state_saveToStorage [simp]: "state (saveToStorage clock w) = state w"
  by (simp add: saveToStorage_def Date_now_def split: sum.splits)

lemma fetched_saveToStorage [simp]: "fetched (saveToStorage clock w) = fetched w"
  by (simp add: saveToStorage_def Date_now_def split: sum.splits)

lemma storageKey_saveToStorage [simp]: "storageKey (saveToStorage clock w) = storageKey w"
  by (simp add: saveToStorage_def Date_now_def split: sum.splits)

lemma state_updateTotalSelected:
  "state (updateTotalSelected w) = (state w)\<lparr>totalSelected := int (length (selectedIds (state w)))\<rparr>"
  by (simp add: updateTotalSelected_def Set_size_def)

lemma selectedIds_deselectRow:
  "selectedIds (state (deselectRow clock p i w)) = Set_delete i (selectedIds (state w))"
  by (simp add: deselectRow_def Let_def state_updateTotalSelected split: option.splits)

lemma pageSelections_deselectRow:
  "map_of (pageSelections (state (deselectRow clock p i w))) =
     (case map_of (pageSelections (state w)) p of
        None \<Rightarrow> map_of (pageSelections (state w))
      | Some ids \<Rightarrow>
          if Set_delete i ids = [] then (map_of (pageSelections (state w)))(p := None)
          else (map_of (pageSelections (state w)))(p \<mapsto> Set_delete i ids))"
  by (auto simp: deselectRow_def Let_def state_updateTotalSelected Map_get_def Map_set_def
      Map_delete_def Set_size_def update_conv' delete_conv' split: option.splits)

lemma Map_has_iff: "Map_has k m \<longleftrightarrow> map_of m k \<noteq> None"
  by (simp add: Map_has_def map_of_eq_None_iff)

lemma selectedIds_selectRow:
  "selectedIds (state (selectRow clock p i w)) = Set_add i (selectedIds (state w))"
  by (simp add: selectRow_def Let_def state_updateTotalSelected split: option.splits)

lemma pageSelections_selectRow:
  "map_of (pageSelections (state (selectRow clock p i w))) =
     (map_of (pageSelections (state w)))
       (p \<mapsto> Set_add i (case map_of (pageSelections (state w)) p of None \<Rightarrow> [] | Some ids \<Rightarrow> ids))"
  by (auto simp: selectRow_def Let_def state_updateTotalSelected Map_get_def Map_set_def Map_has_iff
      new_Set_def update_conv' split: option.splits)

lemma selectedIds_selectAllOnPage:
  "selectedIds (state (selectAllOnPage clock p ids w)) = fold Set_add ids (selectedIds (state w))"
  by (simp add: selectAllOnPage_def Let_def state_updateTotalSelected)

lemma pageSelections_selectAllOnPage:
  "map_of (pageSelections (state (selectAllOnPage clock p ids w))) =
     (map_of (pageSelections (state w)))(p \<mapsto> new_Set ids)"
  by (simp add: selectAllOnPage_def Let_def state_updateTotalSelected Map_set_def update_conv')

lemma selectedIds_deselectAllOnPage:
  "selectedIds (state (deselectAllOnPage clock p w)) =
     (case map_of (pageSelections (state w)) p of
        None \<Rightarrow> selectedIds (state w)
      | Some ids \<Rightarrow> fold Set_delete ids (selectedIds (state w)))"
  by (simp add: deselectAllOnPage_def Let_def state_updateTotalSelected Map_get_def
      split: option.splits)

lemma pageSelections_deselectAllOnPage:
  "map_of (pageSelections (state (deselectAllOnPage clock p w))) =
     (map_of (pageSelections (state w)))(p := None)"
  by (auto simp: deselectAllOnPage_def Let_def state_updateTotalSelected Map_get_def
      Map_delete_def delete_conv' split: option.splits)

lemma state_clearAllSelections:
  "state (clearAllSelections clock w) =
     \<lparr>selectedIds = [], pageSelections = [], totalSelected = 0, lastBulkSelection = None\<rparr>"
  by (simp add: clearAllSelections_def)

lemma totalSelected_selectRow:
  "totalSelected (state (selectRow clock p i w)) =
     int (length (selectedIds (state (selectRow clock p i w))))"
  by (simp add: selectRow_def Let_def state_updateTotalSelected split: option.splits)

lemma totalSelected_deselectRow:
  "totalSelected (state (deselectRow clock p i w)) =
     int (length (selectedIds (state (deselectRow clock p i w))))"
  by (simp add: deselectRow_def Let_def state_updateTotalSelected split: option.splits)

lemma totalSelected_selectAllOnPage:
  "totalSelected (state (selectAllOnPage clock p ids w)) =
     int (length (selectedIds (state (selectAllOnPage clock p ids w))))"
  by (simp add: selectAllOnPage_def Let_def state_updateTotalSelected)

lemma totalSelected_deselectAllOnPage:
  "totalSelected (state (deselectAllOnPage clock p w)) =
     int (length (selectedIds (state (deselectAllOnPage clock p w))))"
  by (simp add: deselectAllOnPage_def Let_def state_updateTotalSelected split: option.splits)

text \<open>The five ways through one round of the loop.\<close>

lemma bulk_loop_stop: "\<not> js_greater rc (Num 0) \<Longrightarrow> bulk_loop clock f rc cp w = w"
  by (simp add: bulk_loop.simps [of clock f rc cp w])

lemma bulk_loop_fail:
  "js_greater rc (Num 0) \<Longrightarrow> f cp = Inl e \<Longrightarrow>
   bulk_loop clock f rc cp w =
     w\<lparr>fetched := fetched w @ [cp], console := console w @ [Error_fetching_page cp e]\<rparr>"
  by (simp add: bulk_loop.simps [of clock f rc cp w])

lemma bulk_loop_empty:
  "js_greater rc (Num 0) \<Longrightarrow> f cp = Inr [] \<Longrightarrow> bulk_loop clock f rc cp w = w\<lparr>fetched := fetched w @ [cp]\<rparr>"
  by (simp add: bulk_loop.simps [of clock f rc cp w])

lemma bulk_loop_ceiling:
  "js_greater rc (Num 0) \<Longrightarrow> f cp = Inr ids \<Longrightarrow> ids \<noteq> [] \<Longrightarrow> cp + 1 > 1000 \<Longrightarrow>
   bulk_loop clock f rc cp w =
     (let w2 = selectAllOnPage clock cp (Array_slice ids rc) (w\<lparr>fetched := fetched w @ [cp]\<rparr>)
      in w2\<lparr>console := console w2 @ [Warn_too_many_pages]\<rparr>)"
  by (simp add: Let_def bulk_loop.simps [of clock f rc cp w])

lemma bulk_loop_step:
  "js_greater rc (Num 0) \<Longrightarrow> f cp = Inr ids \<Longrightarrow> ids \<noteq> [] \<Longrightarrow> \<not> cp + 1 > 1000 \<Longrightarrow>
   bulk_loop clock f rc cp w =
     bulk_loop clock f (js_minus rc (length (Array_slice ids rc))) (cp + 1)
       (selectAllOnPage clock cp (Array_slice ids rc) (w\<lparr>fetched := fetched w @ [cp]\<rparr>))"
  by (simp add: Let_def bulk_loop.simps [of clock f rc cp w])

lemma bulk_loop_rule:
  assumes stop: "\<And>rc cp w. \<not> js_greater rc (Num 0) \<Longrightarrow> R rc cp w w"
    and fail: "\<And>rc cp w e. js_greater rc (Num 0) \<Longrightarrow> f cp = Inl e \<Longrightarrow>
        R rc cp w (w\<lparr>fetched := fetched w @ [cp],
                     console := console w @ [Error_fetching_page cp e]\<rparr>)"
    and empty: "\<And>rc cp w. js_greater rc (Num 0) \<Longrightarrow> f cp = Inr [] \<Longrightarrow>
        R rc cp w (w\<lparr>fetched := fetched w @ [cp]\<rparr>)"
    and ceiling: "\<And>rc cp w ids w2. js_greater rc (Num 0) \<Longrightarrow> f cp = Inr ids \<Longrightarrow> ids \<noteq> [] \<Longrightarrow>
        cp + 1 > 1000 \<Longrightarrow>
        w2 = selectAllOnPage clock cp (Array_slice ids rc) (w\<lparr>fetched := fetched w @ [cp]\<rparr>) \<Longrightarrow>
        R rc cp w (w2\<lparr>console := console w2 @ [Warn_too_many_pages]\<rparr>)"
    and step: "\<And>rc cp w ids w2 w'. js_greater rc (Num 0) \<Longrightarrow> f cp = Inr ids \<Longrightarrow> ids \<noteq> [] \<Longrightarrow>
        \<not> cp + 1 > 1000 \<Longrightarrow>
        w2 = selectAllOnPage clock cp (Array_slice ids rc) (w\<lparr>fetched := fetched w @ [cp]\<rparr>) \<Longrightarrow>
        R (js_minus rc (length (Array_slice ids rc))) (cp + 1) w2 w' \<Longrightarrow>
        R rc cp w w'"
  shows "R rc cp w (bulk_loop clock f rc cp w)"
  using assms
proof (induction clock f rc cp w rule: bulk_loop.induct)
  case (1 clock f rc cp w)
  note stop = "1.prems"(1) and fail = "1.prems"(2) and empty = "1.prems"(3)
    and ceiling = "1.prems"(4) and step = "1.prems"(5)
  show ?case
  proof (cases "js_greater rc (Num 0)")
    case False
    then have "bulk_loop clock f rc cp w = w"
      by (simp add: bulk_loop_stop)
    then show ?thesis
      using stop [of rc cp w] False by simp
  next
    case pos: True
    show ?thesis
    proof (cases "f cp")
      case (Inl e)
      show ?thesis
        unfolding bulk_loop_fail [where f = f and cp = cp, OF pos Inl] by (rule fail [OF pos Inl])
    next
      case (Inr ids)
      show ?thesis
      proof (cases "ids = []")
        case True
        with Inr have e: "f cp = Inr []"
          by simp
        show ?thesis
          unfolding bulk_loop_empty [where f = f and cp = cp, OF pos e] by (rule empty [OF pos e])
      next
        case ne: False
        show ?thesis
        proof (cases "cp + 1 > 1000")
          case True
          show ?thesis
            unfolding bulk_loop_ceiling [where f = f and cp = cp, OF pos Inr ne True] Let_def
            by (rule ceiling [OF pos Inr ne True refl])
        next
          case c: False
          have "R (js_minus rc (length (Array_slice ids rc))) (cp + 1)
                  (selectAllOnPage clock cp (Array_slice ids rc) (w\<lparr>fetched := fetched w @ [cp]\<rparr>))
                  (bulk_loop clock f (js_minus rc (length (Array_slice ids rc))) (cp + 1)
                     (selectAllOnPage clock cp (Array_slice ids rc) (w\<lparr>fetched := fetched w @ [cp]\<rparr>)))"
            using "1.IH" [OF pos refl Inr _ refl refl c "1.prems"] ne by simp
          then show ?thesis
            unfolding bulk_loop_step [where f = f and cp = cp, OF pos Inr ne c]
            by (rule step [OF pos Inr ne c refl])
        qed
      qed
    qed
  qed
qed

text \<open>The same for a count that is an integer.\<close>

lemma floor_rat_numeral [simp]:
  "\<lfloor>numeral a / numeral b :: rat\<rfloor> = numeral a div numeral b"
  by (metis floor_divide_of_int_eq of_int_numeral)

lemma js_greater_of_int [simp]: "js_greater (Num (of_int rc)) (Num 0) \<longleftrightarrow> 0 < rc"
  by (simp add: js_greater_def)

lemma Array_slice_of_int: "0 \<le> rc \<Longrightarrow> Array_slice ids (Num (of_int rc)) = take (nat rc) ids"
  by simp

lemma js_minus_of_int: "js_minus (Num (of_int rc)) n = Num (of_int (rc - int n))"
  by simp

lemma bulk_loop_rule_int:
  assumes stop: "\<And>rc cp w. rc \<le> 0 \<Longrightarrow> R rc cp w w"
    and fail: "\<And>rc cp w e. 0 < rc \<Longrightarrow> f cp = Inl e \<Longrightarrow>
        R rc cp w (w\<lparr>fetched := fetched w @ [cp],
                     console := console w @ [Error_fetching_page cp e]\<rparr>)"
    and empty: "\<And>rc cp w. 0 < rc \<Longrightarrow> f cp = Inr [] \<Longrightarrow>
        R rc cp w (w\<lparr>fetched := fetched w @ [cp]\<rparr>)"
    and ceiling: "\<And>rc cp w ids w2. 0 < rc \<Longrightarrow> f cp = Inr ids \<Longrightarrow> ids \<noteq> [] \<Longrightarrow>
        cp + 1 > 1000 \<Longrightarrow>
        w2 = selectAllOnPage clock cp (take (nat rc) ids) (w\<lparr>fetched := fetched w @ [cp]\<rparr>) \<Longrightarrow>
        R rc cp w (w2\<lparr>console := console w2 @ [Warn_too_many_pages]\<rparr>)"
    and step: "\<And>rc cp w ids w2 w'. 0 < rc \<Longrightarrow> f cp = Inr ids \<Longrightarrow> ids \<noteq> [] \<Longrightarrow>
        \<not> cp + 1 > 1000 \<Longrightarrow>
        w2 = selectAllOnPage clock cp (take (nat rc) ids) (w\<lparr>fetched := fetched w @ [cp]\<rparr>) \<Longrightarrow>
        R (rc - int (length (take (nat rc) ids))) (cp + 1) w2 w' \<Longrightarrow>
        R rc cp w w'"
  shows "R rc cp w (bulk_loop clock f (Num (of_int rc)) cp w)"
proof -
  have "\<forall>rc. x = Num (of_int rc) \<longrightarrow> R rc cp w (bulk_loop clock f x cp w)" for x
  proof (rule bulk_loop_rule
      [where R = "\<lambda>x cp w w'. \<forall>rc. x = Num (of_int rc) \<longrightarrow> R rc cp w w'"])
    fix x cp w
    assume "\<not> js_greater x (Num 0)"
    then show "\<forall>rc. x = Num (of_int rc) \<longrightarrow> R rc cp w w"
      using stop by (auto simp: not_less)
  next
    fix x cp w e
    assume "js_greater x (Num 0)" "f cp = Inl e"
    then show "\<forall>rc. x = Num (of_int rc) \<longrightarrow>
        R rc cp w (w\<lparr>fetched := fetched w @ [cp],
                     console := console w @ [Error_fetching_page cp e]\<rparr>)"
      using fail by auto
  next
    fix x cp w
    assume "js_greater x (Num 0)" "f cp = Inr []"
    then show "\<forall>rc. x = Num (of_int rc) \<longrightarrow> R rc cp w (w\<lparr>fetched := fetched w @ [cp]\<rparr>)"
      using empty by auto
  next
    fix x cp w ids w2
    assume a: "js_greater x (Num 0)" "f cp = Inr ids" "ids \<noteq> []" "cp + 1 > 1000"
      "w2 = selectAllOnPage clock cp (Array_slice ids x) (w\<lparr>fetched := fetched w @ [cp]\<rparr>)"
    show "\<forall>rc. x = Num (of_int rc) \<longrightarrow>
        R rc cp w (w2\<lparr>console := console w2 @ [Warn_too_many_pages]\<rparr>)"
    proof (intro allI impI)
      fix rc
      assume x: "x = Num (of_int rc)"
      then have pos: "0 < rc"
        using a(1) by simp
      then have "w2 = selectAllOnPage clock cp (take (nat rc) ids) (w\<lparr>fetched := fetched w @ [cp]\<rparr>)"
        using a(5) x by (simp add: Array_slice_of_int)
      then show "R rc cp w (w2\<lparr>console := console w2 @ [Warn_too_many_pages]\<rparr>)"
        by (rule ceiling [OF pos a(2) a(3) a(4)])
    qed
  next
    fix x cp w ids w2 w'
    assume a: "js_greater x (Num 0)" "f cp = Inr ids" "ids \<noteq> []" "\<not> cp + 1 > 1000"
      "w2 = selectAllOnPage clock cp (Array_slice ids x) (w\<lparr>fetched := fetched w @ [cp]\<rparr>)"
      and ih: "\<forall>rc. js_minus x (length (Array_slice ids x)) = Num (of_int rc) \<longrightarrow>
                  R rc (cp + 1) w2 w'"
    show "\<forall>rc. x = Num (of_int rc) \<longrightarrow> R rc cp w w'"
    proof (intro allI impI)
      fix rc
      assume x: "x = Num (of_int rc)"
      then have pos: "0 < rc"
        using a(1) by simp
      then have s: "Array_slice ids x = take (nat rc) ids"
        using x by (simp add: Array_slice_of_int)
      have w2: "w2 = selectAllOnPage clock cp (take (nat rc) ids) (w\<lparr>fetched := fetched w @ [cp]\<rparr>)"
        using a(5) s by simp
      have "js_minus x (length (Array_slice ids x))
            = Num (of_int (rc - int (length (take (nat rc) ids))))"
        using s x by (simp add: js_minus_of_int)
      then have "R (rc - int (length (take (nat rc) ids))) (cp + 1) w2 w'"
        using ih by blast
      then show "R rc cp w w'"
        by (rule step [OF pos a(2) a(3) a(4) w2])
    qed
  qed
  then show ?thesis
    by blast
qed

subsection \<open>Representation invariant\<close>

lemma set_update_subset: "set (AList.update k v al) \<subseteq> insert (k, v) (set al)"
  by (induction al) auto

lemma list_all_update:
  "P (k, v) \<Longrightarrow> list_all P al \<Longrightarrow> list_all P (AList.update k v al)"
  using set_update_subset [of k v al] by (auto simp: list_all_iff)

lemma list_all_delete: "list_all P al \<Longrightarrow> list_all P (AList.delete k al)"
  by (auto simp: list_all_iff AList.delete_eq)

lemma map_of_list_all:
  "list_all P al \<Longrightarrow> map_of al k = Some v \<Longrightarrow> P (k, v)"
  by (auto simp: list_all_iff dest: map_of_SomeD)

lemma list_all_map_of:
  assumes "distinct (map fst al)"
  shows "list_all P al \<longleftrightarrow> (\<forall>k v. map_of al k = Some v \<longrightarrow> P (k, v))"
proof
  assume "list_all P al"
  then show "\<forall>k v. map_of al k = Some v \<longrightarrow> P (k, v)"
    by (auto simp: list_all_iff dest: map_of_SomeD)
next
  assume r: "\<forall>k v. map_of al k = Some v \<longrightarrow> P (k, v)"
  have "P e" if "e \<in> set al" for e
  proof -
    obtain k v where e: "e = (k, v)" by (cases e)
    with that assms have "map_of al k = Some v" by simp
    with r e show ?thesis by simp
  qed
  then show "list_all P al" by (simp add: list_all_iff)
qed

lemma well_formed_iff:
  "well_formed s \<longleftrightarrow>
     distinct (selectedIds s) \<and> distinct (map fst (pageSelections s)) \<and>
     (\<forall>p ids. map_of (pageSelections s) p = Some ids \<longrightarrow> distinct ids)"
proof (cases "distinct (map fst (pageSelections s))")
  case True
  show ?thesis
    unfolding well_formed_def list_all_map_of [OF True] by simp
next
  case False
  then show ?thesis by (simp add: well_formed_def)
qed

lemma keys_selectRow:
  "distinct (map fst (pageSelections (state w))) \<Longrightarrow>
   distinct (map fst (pageSelections (state (selectRow clock p i w))))"
  by (simp add: selectRow_def Let_def state_updateTotalSelected Map_get_def Map_set_def
      distinct_update split: option.splits)

lemma keys_deselectRow:
  "distinct (map fst (pageSelections (state w))) \<Longrightarrow>
   distinct (map fst (pageSelections (state (deselectRow clock p i w))))"
  by (simp add: deselectRow_def Let_def state_updateTotalSelected Map_get_def Map_set_def
      Map_delete_def distinct_update distinct_delete split: option.splits)

lemma keys_selectAllOnPage:
  "distinct (map fst (pageSelections (state w))) \<Longrightarrow>
   distinct (map fst (pageSelections (state (selectAllOnPage clock p ids w))))"
  by (simp add: selectAllOnPage_def Let_def state_updateTotalSelected Map_set_def distinct_update)

lemma keys_deselectAllOnPage:
  "distinct (map fst (pageSelections (state w))) \<Longrightarrow>
   distinct (map fst (pageSelections (state (deselectAllOnPage clock p w))))"
  by (simp add: deselectAllOnPage_def Let_def state_updateTotalSelected Map_get_def
      Map_delete_def distinct_delete split: option.splits)

lemma well_formed_selectRow:
  "well_formed (state w) \<Longrightarrow> well_formed (state (selectRow clock p i w))"
  unfolding well_formed_iff
  by (auto simp: keys_selectRow selectedIds_selectRow pageSelections_selectRow
      split: option.splits if_splits)

lemma well_formed_deselectRow:
  "well_formed (state w) \<Longrightarrow> well_formed (state (deselectRow clock p i w))"
  unfolding well_formed_iff
  by (auto simp: keys_deselectRow selectedIds_deselectRow pageSelections_deselectRow
      split: option.splits if_splits)

lemma well_formed_selectAllOnPage:
  "well_formed (state w) \<Longrightarrow> well_formed (state (selectAllOnPage clock p ids w))"
  unfolding well_formed_iff
  by (auto simp: keys_selectAllOnPage selectedIds_selectAllOnPage pageSelections_selectAllOnPage
      split: option.splits if_splits)

lemma well_formed_deselectAllOnPage:
  "well_formed (state w) \<Longrightarrow> well_formed (state (deselectAllOnPage clock p w))"
  unfolding well_formed_iff
  by (auto simp: keys_deselectAllOnPage selectedIds_deselectAllOnPage
      pageSelections_deselectAllOnPage split: option.splits if_splits)

lemma well_formed_clearAllSelections: "well_formed (state (clearAllSelections clock w))"
  by (simp add: well_formed_def state_clearAllSelections)

lemma bulk_loop_state:
  assumes "\<And>w p ids. P (state w) \<Longrightarrow> P (state (selectAllOnPage clock p ids w))"
    and "P (state w)"
  shows "P (state (bulk_loop clock f rc cp w))"
proof -
  have "P (state w) \<longrightarrow> P (state (bulk_loop clock f rc cp w))"
    by (rule bulk_loop_rule [where R = "\<lambda>rc cp w w'. P (state w) \<longrightarrow> P (state w')"])
       (use assms(1) in \<open>auto simp: selectedIds_selectAllOnPage\<close>)
  with assms(2) show ?thesis by simp
qed

lemma state_performBulkSelection:
  "state (snd (performBulkSelection clock p n f w)) =
     state (bulk_loop clock f n p
       (w\<lparr>ticks := Suc (ticks w),
          state := (state w)\<lparr>lastBulkSelection :=
            Some \<lparr>bulk_count = n, bulk_startPage = p, bulk_timestamp = clock (ticks w)\<rparr>\<rparr>\<rparr>))"
  by (simp add: performBulkSelection_def Date_now_def Let_def)

lemma bulkSelect_state:
  assumes step: "\<And>w p ids. P (state w) \<Longrightarrow> P (state (selectAllOnPage clock p ids w))"
    and meta: "\<And>s b. P s \<Longrightarrow> P (s\<lparr>lastBulkSelection := b\<rparr>)"
    and "P (state w)"
  shows "P (state (snd (bulkSelect clock p n f w)))"
proof (cases "js_less_eq n (Num 0) \<or> js_greater n MAX_BULK_SELECTION")
  case True
  then show ?thesis using assms(3) by (simp add: bulkSelect_def)
next
  case False
  then have "state (snd (bulkSelect clock p n f w)) = state (snd (performBulkSelection clock p n f w))"
    by (simp add: bulkSelect_def split: prod.splits)
  then show ?thesis
    unfolding state_performBulkSelection
    using bulk_loop_state [of P clock, OF step] meta [OF assms(3)] by simp
qed

lemma well_formed_perform:
  "well_formed (state w) \<Longrightarrow> well_formed (state (perform clock c w))"
proof (cases c)
  case (BulkSelect p n f)
  assume "well_formed (state w)"
  then have "well_formed (state (snd (bulkSelect clock p n f w)))"
    by (rule bulkSelect_state [where P = well_formed, rotated 2])
       (simp add: well_formed_selectAllOnPage, simp add: well_formed_def)
  then show ?thesis using BulkSelect by simp
qed (simp_all add: well_formed_selectRow well_formed_deselectRow well_formed_selectAllOnPage
      well_formed_deselectAllOnPage well_formed_clearAllSelections)

lemma well_formed_run:
  "well_formed (state w) \<Longrightarrow> well_formed (state (run clock calls w))"
  unfolding run_def by (induction calls arbitrary: w) (simp_all add: well_formed_perform)

lemma well_formed_initial_state: "well_formed initial_state"
  by (simp add: well_formed_def initial_state_def new_Set_def new_Map_def)

lemma counted_perform: "counted (state w) \<Longrightarrow> counted (state (perform clock c w))"
proof (cases c)
  case (BulkSelect p n f)
  assume "counted (state w)"
  then have "counted (state (snd (bulkSelect clock p n f w)))"
    by (rule bulkSelect_state [where P = counted, rotated 2])
       (simp add: counted_def totalSelected_selectAllOnPage, simp add: counted_def)
  then show ?thesis using BulkSelect by simp
qed (simp_all add: counted_def totalSelected_selectRow totalSelected_deselectRow
      totalSelected_selectAllOnPage totalSelected_deselectAllOnPage state_clearAllSelections)

lemma counted_run: "counted (state w) \<Longrightarrow> counted (state (run clock calls w))"
  unfolding run_def by (induction calls arbitrary: w) (simp_all add: counted_perform)

text \<open>Every call but \<open>bulkSelect\<close> ends with a count of the selected rows.\<close>

lemma counted_after: "\<not> is_BulkSelect c \<Longrightarrow> counted (state (perform clock c w))"
  by (cases c)
     (simp_all add: counted_def totalSelected_selectRow totalSelected_deselectRow
       totalSelected_selectAllOnPage totalSelected_deselectAllOnPage state_clearAllSelections)

lemma counted_run_after:
  "counted (state w) \<or> list_ex (\<lambda>c. \<not> is_BulkSelect c) calls \<Longrightarrow>
   counted (state (run clock calls w))"
proof (induction calls arbitrary: w)
  case Nil
  then show ?case by (simp add: run_def)
next
  case (Cons c cs)
  have step: "run clock (c # cs) w = run clock cs (perform clock c w)"
    by (simp add: run_def)
  show ?case
  proof (cases "list_ex (\<lambda>c. \<not> is_BulkSelect c) cs")
    case True
    then show ?thesis
      unfolding step by (intro Cons.IH) simp
  next
    case False
    with Cons.prems have "counted (state w) \<or> \<not> is_BulkSelect c"
      by simp
    then have "counted (state (perform clock c w))"
      using counted_perform counted_after by blast
    then show ?thesis
      unfolding step by (intro Cons.IH) simp
  qed
qed


subsection \<open>Selected rows and page sets\<close>

lemma union_of_pages_iff:
  assumes "distinct (map fst (pageSelections s))"
  shows "x \<in> union_of_pages s \<longleftrightarrow>
         (\<exists>p ids. map_of (pageSelections s) p = Some ids \<and> x \<in> set ids)"
proof -
  have "x \<in> union_of_pages s \<longleftrightarrow> (\<exists>p ids. (p, ids) \<in> set (pageSelections s) \<and> x \<in> set ids)"
    by (force simp: union_of_pages_def)
  then show ?thesis using assms by simp
qed

lemma covered_eq:
  "distinct (map fst (pageSelections s)) \<Longrightarrow> covered s \<Longrightarrow>
   set (selectedIds s) = union_of_pages s"
  by (auto simp: covered_def union_of_pages_iff)

text \<open>Three facts about a set and a map of lists whose union it is.\<close>

lemma cover_update:
  fixes M :: "int \<Rightarrow> int list option"
  assumes cov: "\<forall>x. x \<in> S \<longleftrightarrow> (\<exists>q js. M q = Some js \<and> x \<in> set js)"
    and old: "\<And>old. M p = Some old \<Longrightarrow> set old \<subseteq> set new"
  shows "x \<in> S \<union> set new \<longleftrightarrow> (\<exists>q js. (M(p \<mapsto> new)) q = Some js \<and> x \<in> set js)"
proof
  assume "x \<in> S \<union> set new"
  then consider "x \<in> set new" | "x \<notin> set new" "x \<in> S" by blast
  then show "\<exists>q js. (M(p \<mapsto> new)) q = Some js \<and> x \<in> set js"
  proof cases
    case 1
    then have "(M(p \<mapsto> new)) p = Some new \<and> x \<in> set new" by simp
    then show ?thesis by blast
  next
    case 2
    then obtain q js where q: "M q = Some js" "x \<in> set js" using cov by blast
    with 2 old have "q \<noteq> p" by blast
    with q have "(M(p \<mapsto> new)) q = Some js \<and> x \<in> set js" by simp
    then show ?thesis by blast
  qed
next
  assume "\<exists>q js. (M(p \<mapsto> new)) q = Some js \<and> x \<in> set js"
  then obtain q js where q: "(M(p \<mapsto> new)) q = Some js" "x \<in> set js" by blast
  show "x \<in> S \<union> set new"
  proof (cases "q = p")
    case True
    with q show ?thesis by simp
  next
    case False
    with q have "M q = Some js" by simp
    with q cov show ?thesis by blast
  qed
qed

lemma cover_remove_page:
  fixes M :: "int \<Rightarrow> int list option"
  assumes cov: "\<forall>x. x \<in> S \<longleftrightarrow> (\<exists>q js. M q = Some js \<and> x \<in> set js)"
    and old: "M p = Some old"
    and disj: "\<And>q js. M q = Some js \<Longrightarrow> q \<noteq> p \<Longrightarrow> set js \<inter> set old = {}"
  shows "x \<in> S - set old \<longleftrightarrow> (\<exists>q js. (M(p := None)) q = Some js \<and> x \<in> set js)"
proof
  assume "x \<in> S - set old"
  then have x: "x \<in> S" "x \<notin> set old" by simp_all
  then obtain q js where q: "M q = Some js" "x \<in> set js" using cov by blast
  with x old have "q \<noteq> p" by auto
  with q have "(M(p := None)) q = Some js \<and> x \<in> set js" by simp
  then show "\<exists>q js. (M(p := None)) q = Some js \<and> x \<in> set js" by blast
next
  assume "\<exists>q js. (M(p := None)) q = Some js \<and> x \<in> set js"
  then obtain q js where q: "(M(p := None)) q = Some js" "x \<in> set js" by blast
  then have qp: "q \<noteq> p" by (auto split: if_splits)
  with q have m: "M q = Some js" by simp
  with q cov have "x \<in> S" by blast
  moreover have "x \<notin> set old" using disj [OF m qp] q by blast
  ultimately show "x \<in> S - set old" by simp
qed

lemma cover_remove_row:
  fixes M :: "int \<Rightarrow> int list option"
  assumes cov: "\<forall>x. x \<in> S \<longleftrightarrow> (\<exists>q js. M q = Some js \<and> x \<in> set js)"
    and old: "M p = Some old"
    and only: "\<And>q js. M q = Some js \<Longrightarrow> i \<in> set js \<Longrightarrow> q = p"
  shows "x \<in> S - {i} \<longleftrightarrow>
         (\<exists>q js. (if removeAll i old = [] then M(p := None) else M(p \<mapsto> removeAll i old)) q = Some js
                \<and> x \<in> set js)"
    (is "_ \<longleftrightarrow> (\<exists>q js. ?M' q = Some js \<and> x \<in> set js)")
proof
  assume "x \<in> S - {i}"
  then have x: "x \<in> S" "x \<noteq> i" by simp_all
  then obtain q js where q: "M q = Some js" "x \<in> set js" using cov by blast
  show "\<exists>q js. ?M' q = Some js \<and> x \<in> set js"
  proof (cases "q = p")
    case True
    with q old x have in_rest: "x \<in> set (removeAll i old)" by simp
    then have "removeAll i old \<noteq> []" by (metis empty_iff empty_set)
    then have "?M' p = Some (removeAll i old)" by simp
    with in_rest show ?thesis by blast
  next
    case False
    with q have "?M' q = Some js" by simp
    with q show ?thesis by blast
  qed
next
  assume "\<exists>q js. ?M' q = Some js \<and> x \<in> set js"
  then obtain q js where q: "?M' q = Some js" "x \<in> set js" by blast
  show "x \<in> S - {i}"
  proof (cases "q = p")
    case True
    with q have "js = removeAll i old" by (auto split: if_splits)
    with q have "x \<in> set old" "x \<noteq> i" by simp_all
    with old cov show ?thesis by blast
  next
    case False
    with q have m: "M q = Some js" by (auto split: if_splits)
    with q cov have "x \<in> S" by blast
    moreover have "x \<noteq> i" using only [OF m] q False by blast
    ultimately show ?thesis by simp
  qed
qed

lemma covered_selectRow:
  assumes "covered (state w)"
  shows "covered (state (selectRow clock p i w))"
proof -
  let ?M = "map_of (pageSelections (state w))"
  let ?new = "Set_add i (case ?M p of None \<Rightarrow> [] | Some ids \<Rightarrow> ids)"
  have cov: "\<forall>x. x \<in> set (selectedIds (state w)) \<longleftrightarrow> (\<exists>q js. ?M q = Some js \<and> x \<in> set js)"
    using assms by (simp add: covered_def)
  have old: "\<And>old. ?M p = Some old \<Longrightarrow> set old \<subseteq> set ?new"
    by auto
  have "set (selectedIds (state w)) \<union> set ?new = insert i (set (selectedIds (state w)))"
    using cov by (auto split: option.splits)
  then show ?thesis
    unfolding covered_def selectedIds_selectRow pageSelections_selectRow
    using cover_update [of "set (selectedIds (state w))" ?M p ?new, OF cov old]
    by simp
qed

lemma covered_selectAllOnPage:
  assumes "covered (state w)" and "page_consistent clock w (SelectAllOnPage p ids)"
  shows "covered (state (selectAllOnPage clock p ids w))"
proof -
  let ?M = "map_of (pageSelections (state w))"
  have cov: "\<forall>x. x \<in> set (selectedIds (state w)) \<longleftrightarrow> (\<exists>q js. ?M q = Some js \<and> x \<in> set js)"
    using assms by (simp add: covered_def)
  have old: "\<And>old. ?M p = Some old \<Longrightarrow> set old \<subseteq> set (new_Set ids)"
    using assms(2) by (simp add: getPageSelections_def Map_get_def)
  show ?thesis
    unfolding covered_def selectedIds_selectAllOnPage pageSelections_selectAllOnPage
    using cover_update [of "set (selectedIds (state w))" ?M p "new_Set ids", OF cov old]
    by (simp add: Un_commute)
qed

lemma covered_deselectAllOnPage:
  assumes "covered (state w)" and "page_consistent clock w (DeselectAllOnPage p)"
  shows "covered (state (deselectAllOnPage clock p w))"
proof -
  let ?M = "map_of (pageSelections (state w))"
  have cov: "\<forall>x. x \<in> set (selectedIds (state w)) \<longleftrightarrow> (\<exists>q js. ?M q = Some js \<and> x \<in> set js)"
    using assms by (simp add: covered_def)
  show ?thesis
  proof (cases "?M p")
    case None
    then have "?M(p := None) = ?M" by auto
    with None assms(1) show ?thesis
      by (simp add: covered_def selectedIds_deselectAllOnPage pageSelections_deselectAllOnPage)
  next
    case (Some old)
    have disj: "\<And>q js. ?M q = Some js \<Longrightarrow> q \<noteq> p \<Longrightarrow> set js \<inter> set old = {}"
      using assms(2) Some map_of_list_all [of _ "pageSelections (state w)"]
      by (fastforce simp: getPageSelections_def Map_get_def)
    show ?thesis
      unfolding covered_def selectedIds_deselectAllOnPage pageSelections_deselectAllOnPage
      using cover_remove_page [of "set (selectedIds (state w))" ?M p old, OF cov Some disj] Some
      by simp
  qed
qed

lemma covered_deselectRow:
  assumes "covered (state w)" and "page_consistent clock w (DeselectRow p i)"
  shows "covered (state (deselectRow clock p i w))"
proof -
  let ?M = "map_of (pageSelections (state w))"
  have cov: "\<forall>x. x \<in> set (selectedIds (state w)) \<longleftrightarrow> (\<exists>q js. ?M q = Some js \<and> x \<in> set js)"
    using assms by (simp add: covered_def)
  have only: "\<And>q js. ?M q = Some js \<Longrightarrow> i \<in> set js \<Longrightarrow> q = p"
    using assms(2) map_of_list_all [of _ "pageSelections (state w)"] by fastforce
  show ?thesis
  proof (cases "?M p")
    case None
    with only cov have "i \<notin> set (selectedIds (state w))" by force
    then have "set (selectedIds (state w)) - {i} = set (selectedIds (state w))" by simp
    with None assms(1) show ?thesis
      by (simp add: covered_def selectedIds_deselectRow pageSelections_deselectRow)
  next
    case (Some old)
    show ?thesis
      unfolding covered_def selectedIds_deselectRow pageSelections_deselectRow
      using cover_remove_row [of "set (selectedIds (state w))" ?M p old i, OF cov Some only] Some
      by (simp add: Set_delete_def)
  qed
qed

subsection \<open>The bulk loop and the page sets\<close>

lemma grows_same: "state w' = state w \<Longrightarrow> grows cp w w'"
  by (simp add: grows_def)

lemma grows_selectAllOnPage:
  "state w1 = state w \<Longrightarrow> state w' = state (selectAllOnPage clock cp ids w1) \<Longrightarrow> grows cp w w'"
  by (auto simp: grows_def selectedIds_selectAllOnPage pageSelections_selectAllOnPage)

lemma grows_step:
  assumes w1: "state w1 = state w"
    and b: "grows (cp + 1) (selectAllOnPage clock cp ids w1) w'"
  shows "grows cp w w'"
proof -
  let ?S = "\<lambda>w. set (selectedIds (state w))"
  let ?M = "\<lambda>w. map_of (pageSelections (state w))"
  let ?w2 = "selectAllOnPage clock cp ids w1"
  have S2: "?S ?w2 = set ids \<union> ?S w"
    using w1 by (simp add: selectedIds_selectAllOnPage)
  have M2: "?M ?w2 = (?M w)(cp \<mapsto> new_Set ids)"
    using w1 by (simp add: pageSelections_selectAllOnPage)
  have b1: "?S ?w2 \<subseteq> ?S w'"
    and b2: "\<And>x. x \<in> ?S w' \<Longrightarrow> x \<notin> ?S ?w2 \<Longrightarrow> \<exists>q js. ?M w' q = Some js \<and> x \<in> set js"
    and b3: "\<And>q. ?M w' q = ?M ?w2 q \<or> (\<exists>js. ?M w' q = Some js \<and> set js \<subseteq> ?S w')"
    and b4: "\<And>q. q < cp + 1 \<Longrightarrow> ?M w' q = ?M ?w2 q"
    using b unfolding grows_def by blast+
  have cp: "?M w' cp = Some (new_Set ids)"
    using b4 [of cp] M2 by simp
  have 1: "?S w \<subseteq> ?S w'"
    using b1 S2 by blast
  have 2: "\<exists>q js. ?M w' q = Some js \<and> x \<in> set js" if "x \<in> ?S w'" "x \<notin> ?S w" for x
  proof (cases "x \<in> set ids")
    case True
    then have "?M w' cp = Some (new_Set ids) \<and> x \<in> set (new_Set ids)"
      using cp by simp
    then show ?thesis by blast
  next
    case False
    with that S2 b2 [of x] show ?thesis by blast
  qed
  have 3: "?M w' q = ?M w q \<or> (\<exists>js. ?M w' q = Some js \<and> set js \<subseteq> ?S w')" for q
  proof (cases "q = cp")
    case True
    have "set (new_Set ids) \<subseteq> ?S w'" using b1 S2 by auto
    with cp True show ?thesis by blast
  next
    case False
    with b3 [of q] M2 show ?thesis by auto
  qed
  have 4: "?M w' q = ?M w q" if "q < cp" for q
    using b4 [of q] M2 that by simp
  show ?thesis
    unfolding grows_def using 1 2 3 4 by blast
qed

lemma grows_bulk_loop: "grows cp w (bulk_loop clock f rc cp w)"
proof (rule bulk_loop_rule [where R = "\<lambda>rc. grows"])
  fix rc cp w ids w2 w'
  assume "w2 = selectAllOnPage clock cp (Array_slice ids rc) (w\<lparr>fetched := fetched w @ [cp]\<rparr>)"
    and "grows (cp + 1) w2 w'"
  then show "grows cp w w'"
    using grows_step [of "w\<lparr>fetched := fetched w @ [cp]\<rparr>" w cp clock "Array_slice ids rc" w']
    by simp
next
  fix rc cp w ids w2
  assume "w2 = selectAllOnPage clock cp (Array_slice ids rc) (w\<lparr>fetched := fetched w @ [cp]\<rparr>)"
  then show "grows cp w (w2\<lparr>console := console w2 @ [Warn_too_many_pages]\<rparr>)"
    using grows_selectAllOnPage [of "w\<lparr>fetched := fetched w @ [cp]\<rparr>" w _ clock cp "Array_slice ids rc"]
    by simp
qed (simp_all add: grows_same)

lemma snd_bulkSelect:
  "\<not> (js_less_eq n (Num 0) \<or> js_greater n MAX_BULK_SELECTION) \<Longrightarrow>
   snd (bulkSelect clock p n f w) = snd (performBulkSelection clock p n f w)"
  by (simp add: bulkSelect_def split: prod.splits)

lemma grows_bulkSelect: "grows p w (snd (bulkSelect clock p n f w))"
proof (cases "js_less_eq n (Num 0) \<or> js_greater n MAX_BULK_SELECTION")
  case True
  then show ?thesis by (simp add: bulkSelect_def grows_same)
next
  case False
  let ?w2 = "w\<lparr>ticks := Suc (ticks w),
          state := (state w)\<lparr>lastBulkSelection :=
            Some \<lparr>bulk_count = n, bulk_startPage = p, bulk_timestamp = clock (ticks w)\<rparr>\<rparr>\<rparr>"
  have "state (snd (bulkSelect clock p n f w)) = state (bulk_loop clock f n p ?w2)"
    using False by (simp add: snd_bulkSelect state_performBulkSelection)
  moreover have "grows p ?w2 (bulk_loop clock f n p ?w2)"
    by (rule grows_bulk_loop)
  ultimately show ?thesis
    by (simp add: grows_def)
qed

lemma covered_bulkSelect:
  assumes cov: "covered (state w)" and pc: "page_consistent clock w (BulkSelect p n f)"
  shows "covered (state (snd (bulkSelect clock p n f w)))"
proof -
  let ?w' = "snd (bulkSelect clock p n f w)"
  let ?S = "\<lambda>w. set (selectedIds (state w))"
  let ?M = "\<lambda>w. map_of (pageSelections (state w))"
  have g1: "?S w \<subseteq> ?S ?w'"
    and g2: "\<And>x. x \<in> ?S ?w' \<Longrightarrow> x \<notin> ?S w \<Longrightarrow> \<exists>q js. ?M ?w' q = Some js \<and> x \<in> set js"
    and g3: "\<And>q. ?M ?w' q = ?M w q \<or> (\<exists>js. ?M ?w' q = Some js \<and> set js \<subseteq> ?S ?w')"
    using grows_bulkSelect [of p w clock n f] unfolding grows_def by blast+
  have keep: "\<exists>js'. ?M ?w' q = Some js' \<and> x \<in> set js'" if "?M w q = Some js" "x \<in> set js" for q js x
  proof -
    have "set js \<subseteq> set (getPageSelections q ?w')"
      using pc that(1) map_of_list_all [of _ "pageSelections (state w)" q js] by fastforce
    with that(2) have "x \<in> set (getPageSelections q ?w')" by blast
    then show ?thesis
      by (auto simp: getPageSelections_def Map_get_def new_Set_def split: option.splits)
  qed
  have c: "\<And>x. x \<in> ?S w \<longleftrightarrow> (\<exists>q js. ?M w q = Some js \<and> x \<in> set js)"
    using cov unfolding covered_def by blast
  show ?thesis
    unfolding covered_def
  proof (intro allI iffI)
    fix x assume x: "x \<in> ?S ?w'"
    show "\<exists>q js. ?M ?w' q = Some js \<and> x \<in> set js"
    proof (cases "x \<in> ?S w")
      case True
      then obtain q js where "?M w q = Some js" "x \<in> set js" using c by blast
      then show ?thesis using keep by blast
    next
      case False
      with x g2 show ?thesis by blast
    qed
  next
    fix x assume "\<exists>q js. ?M ?w' q = Some js \<and> x \<in> set js"
    then obtain q js where q: "?M ?w' q = Some js" "x \<in> set js" by blast
    from g3 [of q] show "x \<in> ?S ?w'"
    proof
      assume "?M ?w' q = ?M w q"
      with q c have "x \<in> ?S w" by auto
      with g1 show ?thesis by blast
    next
      assume "\<exists>js. ?M ?w' q = Some js \<and> set js \<subseteq> ?S ?w'"
      with q show ?thesis by auto
    qed
  qed
qed

lemma covered_perform:
  "covered (state w) \<Longrightarrow> page_consistent clock w c \<Longrightarrow> covered (state (perform clock c w))"
proof (cases c)
  case ClearAllSelections
  then show ?thesis by (simp add: covered_def state_clearAllSelections)
qed (simp_all only: perform.simps covered_selectRow covered_deselectRow covered_selectAllOnPage
      covered_deselectAllOnPage covered_bulkSelect)

lemma covered_run:
  "covered (state w) \<Longrightarrow> page_consistent_run clock w calls \<Longrightarrow>
   covered (state (run clock calls w))"
  unfolding run_def
proof (induction calls arbitrary: w)
  case Nil
  then show ?case by simp
next
  case (Cons c calls)
  then show ?case by (simp add: covered_perform)
qed


subsection \<open>Evaluation\<close>

text \<open>
  What \<open>saveToStorage\<close> does to each field of the world. With these rules the simplifier
  runs the model on a concrete input field by field, and never copies a world.
\<close>

lemma ticks_saveToStorage: "ticks (saveToStorage clock w) = Suc (ticks w)"
  by (simp add: saveToStorage_def Date_now_def split: sum.splits)

lemma console_saveToStorage_eq:
  "console (saveToStorage clock w) =
     (if full (storage w) then console w @ [Warn_failed_to_save QuotaExceededError] else console w)"
  by (simp add: saveToStorage_def Date_now_def localStorage_setItem_def)

lemma full_saveToStorage: "full (storage (saveToStorage clock w)) = full (storage w)"
  by (simp add: saveToStorage_def Date_now_def localStorage_setItem_def)

lemma items_saveToStorage:
  "items (storage (saveToStorage clock w)) =
     (if full (storage w) then items (storage w)
      else (items (storage w))
             (storageKey w \<mapsto> JSON_stringify (dataToStore (state w) (clock (ticks w)))))"
  by (simp add: saveToStorage_def Date_now_def localStorage_setItem_def)

lemmas saveToStorage_fields =
  state_saveToStorage fetched_saveToStorage storageKey_saveToStorage ticks_saveToStorage
  console_saveToStorage_eq full_saveToStorage items_saveToStorage

text \<open>The definitions that the simplifier unfolds to run the model on a concrete input.\<close>

lemmas model_defs =
  Set_add_def Set_delete_def Set_has_def Set_size_def new_Set_def Array_from_def
  Map_has_def Map_get_def Map_set_def Map_delete_def new_Map_def
  Object_fromEntries_def Object_entries_def is_array_index_def parseInt_def
  JSON_stringify_def JSON_parse_def
  localStorage_getItem_def localStorage_setItem_def localStorage_removeItem_def
  js_less_eq_def js_greater_def
  Date_now_def updateTotalSelected_def dataToStore_def saveToStorage_fields load_failed_def
  expiryTime_def STORAGE_EXPIRY_HOURS_def MAX_BULK_SELECTION_def SELECTION_STATE_def
  loadFromStorage_def initial_state_def constructor_def
  selectRow_def deselectRow_def selectAllOnPage_def deselectAllOnPage_def
  performBulkSelection_def bulkSelect_def getPageSelections_def isRowSelected_def
  getTotalSelected_def clearAllSelections_def run_def Let_def

subsection \<open>The trace of the bulk loop\<close>

lemma shift_pages: "cp # map (\<lambda>k. cp + 1 + int k) [0..<n] = map (\<lambda>k. cp + int k) [0..<Suc n]"
proof -
  have "[0..<Suc n] = 0 # map Suc [0..<n]"
    by (simp add: upt_conv_Cons map_Suc_upt del: upt_Suc)
  then show ?thesis
    by (simp add: comp_def del: upt_Suc)
qed

lemma loop_trace_stop: "rc \<le> 0 \<Longrightarrow> loop_trace f rc cp 0 w w"
  by (simp add: loop_trace_def)

lemma loop_trace_fail:
  "0 < rc \<Longrightarrow> f cp = Inl e \<Longrightarrow>
   loop_trace f rc cp 1 w
     (w\<lparr>fetched := fetched w @ [cp], console := console w @ [Error_fetching_page cp e]\<rparr>)"
  by (simp add: loop_trace_def)

lemma loop_trace_empty:
  "0 < rc \<Longrightarrow> f cp = Inr [] \<Longrightarrow> loop_trace f rc cp 1 w (w\<lparr>fetched := fetched w @ [cp]\<rparr>)"
  by (simp add: loop_trace_def)

lemma fetched_selectAllOnPage [simp]:
  "fetched (selectAllOnPage clock p ids w) = fetched w"
  by (simp add: selectAllOnPage_def Let_def updateTotalSelected_def)

lemma loop_trace_ceiling:
  assumes "0 < rc" "f cp = Inr ids" "ids \<noteq> []" "cp + 1 > 1000"
    and w2: "w2 = selectAllOnPage clock cp (take (nat rc) ids) (w\<lparr>fetched := fetched w @ [cp]\<rparr>)"
  shows "loop_trace f rc cp 1 w (w2\<lparr>console := console w2 @ [Warn_too_many_pages]\<rparr>)"
proof -
  have "map_of (pageSelections (state w2)) cp = Some (new_Set (take (nat rc) ids))
       \<and> set (take (nat rc) ids) \<subseteq> set (selectedIds (state w2))"
    using assms by (simp add: pageSelections_selectAllOnPage selectedIds_selectAllOnPage)
  then show ?thesis
    using assms by (simp add: loop_trace_def)
qed

lemma sum_page_size_shift:
  "(\<Sum>k<Suc n. page_size f (cp + int k)) = page_size f cp + (\<Sum>k<n. page_size f (cp + 1 + int k))"
proof -
  have "(\<Sum>k<Suc n. page_size f (cp + int k))
      = page_size f (cp + int 0) + (\<Sum>k<n. page_size f (cp + int (Suc k)))"
    by (rule sum.lessThan_Suc_shift)
  then show ?thesis
    by (simp add: add.assoc)
qed

lemma loop_trace_step:
  assumes pos: "0 < rc" and page: "f cp = Inr ids" and ne: "ids \<noteq> []"
    and c: "\<not> cp + 1 > 1000"
    and w2: "w2 = selectAllOnPage clock cp (take (nat rc) ids) (w\<lparr>fetched := fetched w @ [cp]\<rparr>)"
    and g: "grows (cp + 1) w2 w'"
    and t: "loop_trace f (rc - int (length (take (nat rc) ids))) (cp + 1) n w2 w'"
  shows "loop_trace f rc cp (Suc n) w w'"
proof -
  let ?len = "int (length (take (nat rc) ids))"
  let ?M = "\<lambda>w. map_of (pageSelections (state w))"
  let ?S = "\<lambda>w. set (selectedIds (state w))"
  let ?T = "\<lambda>k. \<Sum>j<k. page_size f (cp + 1 + int j)"
  have "1 \<le> length ids"
    using ne by (cases ids) simp_all
  then have len: "1 \<le> ?len" "?len \<le> rc" "?len \<le> page_size f cp"
    using pos page by (simp_all add: page_size_def)
  have t1: "fetched w' = fetched w2 @ map (\<lambda>k. cp + 1 + int k) [0..<n]"
    and t2: "int n \<le> max 0 (rc - ?len)" "0 < rc - ?len \<Longrightarrow> 0 < n"
    and t3: "\<And>k. Suc k < n \<Longrightarrow> (\<exists>ids. f (cp + 1 + int k) = Inr ids \<and> ids \<noteq> [])
        \<and> ?T (Suc k) < rc - ?len \<and> cp + 1 + int k < 1000"
    and t4: "\<And>k ids. k < n \<Longrightarrow> f (cp + 1 + int k) = Inr ids \<Longrightarrow> ids \<noteq> [] \<Longrightarrow>
        ?T k < rc - ?len
        \<and> ?M w' (cp + 1 + int k) = Some (new_Set (take (nat (rc - ?len - ?T k)) ids))
        \<and> set (take (nat (rc - ?len - ?T k)) ids) \<subseteq> ?S w'"
    and t5: "0 < n \<Longrightarrow>
        (\<exists>e. f (cp + 1 + int n - 1) = Inl e) \<or> f (cp + 1 + int n - 1) = Inr []
        \<or> 1000 \<le> cp + 1 + int n - 1
        \<or> rc - ?len \<le> ?T n"
    and t5a: "\<And>e. 0 < n \<Longrightarrow> f (cp + 1 + int n - 1) = Inl e \<Longrightarrow>
        Error_fetching_page (cp + 1 + int n - 1) e \<in> set (console w')"
    and t6: "0 < n \<Longrightarrow> 1000 \<le> cp + 1 + int n - 1 \<Longrightarrow> f (cp + 1 + int n - 1) \<noteq> Inr [] \<Longrightarrow>
        (\<forall>e. f (cp + 1 + int n - 1) \<noteq> Inl e) \<Longrightarrow> Warn_too_many_pages \<in> set (console w')"
    using t unfolding loop_trace_def by blast+
  have whole: "?len = page_size f cp" if "0 < n"
  proof -
    from that t2(1) have "0 < rc - ?len" by linarith
    then have "length (take (nat rc) ids) < nat rc" by linarith
    then have "length (take (nat rc) ids) = length ids" by simp
    then show ?thesis using page by (simp add: page_size_def)
  qed
  have more: "page_size f cp < rc" if "0 < n"
  proof -
    from that t2(1) have "0 < rc - ?len" by linarith
    with whole [OF that] show ?thesis by linarith
  qed
  have 1: "fetched w' = fetched w @ map (\<lambda>k. cp + int k) [0..<Suc n]"
    using t1 w2 shift_pages [of cp n] by simp
  have 2: "int (Suc n) \<le> max 0 rc" "0 < Suc n"
    using t2 len by auto
  have 3: "(\<exists>ids. f (cp + int k) = Inr ids \<and> ids \<noteq> [])
      \<and> (\<Sum>j<Suc k. page_size f (cp + int j)) < rc \<and> cp + int k < 1000"
    if "Suc k < Suc n" for k
  proof (cases k)
    case 0
    from that have "0 < n" by simp
    from more [OF this] have "(\<Sum>j<Suc 0. page_size f (cp + int j)) < rc" by simp
    with 0 page ne c show ?thesis by simp
  next
    case (Suc j)
    with that have j: "Suc j < n" by simp
    then have n: "0 < n" by simp
    have a: "\<exists>ids. f (cp + int k) = Inr ids \<and> ids \<noteq> []" and b: "cp + int k < 1000"
      using t3 [OF j] Suc by (simp_all add: add.assoc)
    have "?T (Suc j) < rc - page_size f cp"
      using t3 [OF j] whole [OF n] by simp
    then have "(\<Sum>i<Suc (Suc j). page_size f (cp + int i)) < rc"
      unfolding sum_page_size_shift [where n = "Suc j" and f = f and cp = cp] by linarith
    with a b Suc show ?thesis by simp
  qed
  have keep: "?M w' cp = ?M w2 cp" and sub: "?S w2 \<subseteq> ?S w'"
    using g by (simp_all add: grows_def)
  have 4: "(\<Sum>j<k. page_size f (cp + int j)) < rc
      \<and> ?M w' (cp + int k)
          = Some (new_Set (take (nat (rc - (\<Sum>j<k. page_size f (cp + int j)))) js))
      \<and> set (take (nat (rc - (\<Sum>j<k. page_size f (cp + int j)))) js) \<subseteq> ?S w'"
    if "k < Suc n" "f (cp + int k) = Inr js" "js \<noteq> []" for k js
  proof (cases k)
    case 0
    with that page have js: "js = ids" by simp
    have "?M w' cp = Some (new_Set (take (nat rc) ids)) \<and> set (take (nat rc) ids) \<subseteq> ?S w'"
      using keep sub w2
      by (auto simp: pageSelections_selectAllOnPage selectedIds_selectAllOnPage)
    then show ?thesis
      using pos 0 js by simp
  next
    case (Suc j)
    with that have j: "j < n" by simp
    then have n: "0 < n" by simp
    have fj: "f (cp + 1 + int j) = Inr js"
      using that(2) Suc by (simp add: add.assoc)
    have eq: "(\<Sum>i<Suc j. page_size f (cp + int i)) = ?len + ?T j"
      unfolding sum_page_size_shift [where n = j and f = f and cp = cp] using whole [OF n] by simp
    have r: "rc - (\<Sum>i<Suc j. page_size f (cp + int i)) = rc - ?len - ?T j"
      unfolding eq by simp
    have lt: "(\<Sum>i<Suc j. page_size f (cp + int i)) < rc"
      unfolding eq using t4 [OF j fj that(3)] by linarith
    have k: "cp + int k = cp + 1 + int j"
      using Suc by simp
    show ?thesis
      unfolding k using t4 [OF j fj that(3)] lt unfolding Suc r by blast
  qed
  have sum: "(\<Sum>k<Suc n. page_size f (cp + int k)) = page_size f cp + ?T n"
    by (rule sum_page_size_shift)
  have 5: "(\<exists>e. f (cp + int (Suc n) - 1) = Inl e) \<or> f (cp + int (Suc n) - 1) = Inr []
        \<or> 1000 \<le> cp + int (Suc n) - 1
        \<or> rc \<le> (\<Sum>k<Suc n. page_size f (cp + int k))"
  proof (cases "0 < n")
    case True
    have "cp + int (Suc n) - 1 = cp + 1 + int n - 1" by simp
    moreover have "rc - ?len \<le> ?T n \<Longrightarrow> rc \<le> (\<Sum>k<Suc n. page_size f (cp + int k))"
      using len unfolding sum by linarith
    ultimately show ?thesis using t5 [OF True] by metis
  next
    case False
    with t2(2) have "\<not> 0 < rc - ?len" by blast
    then have "rc \<le> page_size f cp" using len(3) by linarith
    moreover from False have "(\<Sum>k<Suc n. page_size f (cp + int k)) = page_size f cp" by simp
    ultimately have "rc \<le> (\<Sum>k<Suc n. page_size f (cp + int k))" by simp
    then show ?thesis by blast
  qed
  have e5: "Error_fetching_page (cp + int (Suc n) - 1) e \<in> set (console w')"
    if "f (cp + int (Suc n) - 1) = Inl e" for e
  proof (cases "0 < n")
    case True
    have "cp + int (Suc n) - 1 = cp + 1 + int n - 1" by simp
    with that t5a [OF True, of e] show ?thesis by metis
  next
    case False
    with that page show ?thesis by simp
  qed
  have 6: "Warn_too_many_pages \<in> set (console w')"
    if "1000 \<le> cp + int (Suc n) - 1" "f (cp + int (Suc n) - 1) \<noteq> Inr []"
      "\<forall>e. f (cp + int (Suc n) - 1) \<noteq> Inl e"
  proof (cases "0 < n")
    case True
    have "cp + int (Suc n) - 1 = cp + 1 + int n - 1" by simp
    with that t6 [OF True] show ?thesis by metis
  next
    case False
    with that c show ?thesis by simp
  qed
  show ?thesis
    unfolding loop_trace_def
  proof (intro conjI allI impI)
    show "fetched w' = fetched w @ map (\<lambda>k. cp + int k) [0..<Suc n]" by (rule 1)
    show "int (Suc n) \<le> max 0 rc" by (rule 2)
    show "0 < Suc n" by simp
  next
    fix k assume "Suc k < Suc n"
    from 3 [OF this]
    show "\<exists>ids. f (cp + int k) = Inr ids \<and> ids \<noteq> []"
      and "(\<Sum>j<Suc k. page_size f (cp + int j)) < rc" and "cp + int k < 1000"
      by blast+
  next
    fix k js assume "k < Suc n" "f (cp + int k) = Inr js" "js \<noteq> []"
    from 4 [OF this]
    show "(\<Sum>j<k. page_size f (cp + int j)) < rc"
      and "?M w' (cp + int k)
          = Some (new_Set (take (nat (rc - (\<Sum>j<k. page_size f (cp + int j)))) js))"
      and "set (take (nat (rc - (\<Sum>j<k. page_size f (cp + int j)))) js) \<subseteq> ?S w'"
      by blast+
  next
    show "(\<exists>e. f (cp + int (Suc n) - 1) = Inl e) \<or> f (cp + int (Suc n) - 1) = Inr []
        \<or> 1000 \<le> cp + int (Suc n) - 1
        \<or> rc \<le> (\<Sum>k<Suc n. page_size f (cp + int k))"
      by (rule 5)
  next
    fix e assume "f (cp + int (Suc n) - 1) = Inl e"
    then show "Error_fetching_page (cp + int (Suc n) - 1) e \<in> set (console w')" by (rule e5)
  next
    assume "1000 \<le> cp + int (Suc n) - 1" "f (cp + int (Suc n) - 1) \<noteq> Inr []"
      "\<forall>e. f (cp + int (Suc n) - 1) \<noteq> Inl e"
    then show "Warn_too_many_pages \<in> set (console w')" by (rule 6)
  qed
qed

lemma loop_trace_bulk_loop:
  "\<exists>n. loop_trace f rc cp n w (bulk_loop clock f (Num (of_int rc)) cp w)"
proof -
  have "grows cp w (bulk_loop clock f (Num (of_int rc)) cp w)
      \<and> (\<exists>n. loop_trace f rc cp n w (bulk_loop clock f (Num (of_int rc)) cp w))"
  proof (rule bulk_loop_rule_int [where R = "\<lambda>rc cp w w'. grows cp w w' \<and> (\<exists>n. loop_trace f rc cp n w w')"])
    fix rc cp :: int and w :: world
    assume "rc \<le> 0"
    then show "grows cp w w \<and> (\<exists>n. loop_trace f rc cp n w w)"
      using loop_trace_stop [of rc f cp w] by (auto simp: grows_same)
  next
    fix rc cp :: int and w :: world and e :: rejection
    assume "0 < rc" "f cp = Inl e"
    then show "grows cp w (w\<lparr>fetched := fetched w @ [cp], console := console w @ [Error_fetching_page cp e]\<rparr>)
       \<and> (\<exists>n. loop_trace f rc cp n w
             (w\<lparr>fetched := fetched w @ [cp], console := console w @ [Error_fetching_page cp e]\<rparr>))"
      using loop_trace_fail [of rc f cp e w] by (auto simp: grows_same)
  next
    fix rc cp :: int and w :: world
    assume "0 < rc" "f cp = Inr []"
    then show "grows cp w (w\<lparr>fetched := fetched w @ [cp]\<rparr>)
       \<and> (\<exists>n. loop_trace f rc cp n w (w\<lparr>fetched := fetched w @ [cp]\<rparr>))"
      using loop_trace_empty [of rc f cp w] by (auto simp: grows_same)
  next
    fix rc cp :: int and w w2 :: world and ids :: "int list"
    assume a: "0 < rc" "f cp = Inr ids" "ids \<noteq> []" "cp + 1 > 1000"
      "w2 = selectAllOnPage clock cp (take (nat rc) ids) (w\<lparr>fetched := fetched w @ [cp]\<rparr>)"
    have "grows cp w (w2\<lparr>console := console w2 @ [Warn_too_many_pages]\<rparr>)"
      using a(5) grows_selectAllOnPage [of "w\<lparr>fetched := fetched w @ [cp]\<rparr>" w _ clock cp "take (nat rc) ids"]
      by simp
    then show "grows cp w (w2\<lparr>console := console w2 @ [Warn_too_many_pages]\<rparr>)
       \<and> (\<exists>n. loop_trace f rc cp n w (w2\<lparr>console := console w2 @ [Warn_too_many_pages]\<rparr>))"
      using loop_trace_ceiling [where f = f and cp = cp, OF a] by blast
  next
    fix rc cp :: int and w w2 w' :: world and ids :: "int list"
    assume a: "0 < rc" "f cp = Inr ids" "ids \<noteq> []" "\<not> cp + 1 > 1000"
      "w2 = selectAllOnPage clock cp (take (nat rc) ids) (w\<lparr>fetched := fetched w @ [cp]\<rparr>)"
      and ih: "grows (cp + 1) w2 w' \<and> (\<exists>n. loop_trace f (rc - int (length (take (nat rc) ids))) (cp + 1) n w2 w')"
    then obtain n where n: "loop_trace f (rc - int (length (take (nat rc) ids))) (cp + 1) n w2 w'"
      by blast
    have "grows cp w w'"
      using ih a(5) grows_step [of "w\<lparr>fetched := fetched w @ [cp]\<rparr>" w cp clock "take (nat rc) ids" w']
      by simp
    then show "grows cp w w' \<and> (\<exists>n. loop_trace f rc cp n w w')"
      using loop_trace_step [where f = f and cp = cp, OF a _ n] ih by blast
  qed
  then show ?thesis by blast
qed


lemma loop_trace_transfer:
  assumes "loop_trace f rc cp n w2 w3"
    and "fetched w2 = fetched w" "fetched w' = fetched w3" "state w' = state w3"
    and "set (console w3) \<subseteq> set (console w')"
  shows "loop_trace f rc cp n w w'"
  using assms unfolding loop_trace_def by (simp add: subset_iff)

lemma console_saveToStorage: "set (console w) \<subseteq> set (console (saveToStorage clock w))"
  by (auto simp: saveToStorage_def Date_now_def split: sum.splits)

lemma fst_bulkSelect:
  "\<not> (js_less_eq n (Num 0) \<or> js_greater n MAX_BULK_SELECTION) \<Longrightarrow> fst (bulkSelect clock p n f w) = Inr Fulfilled"
  by (simp add: bulkSelect_def performBulkSelection_def Date_now_def Let_def split: prod.splits)

lemma snd_performBulkSelection:
  "snd (performBulkSelection clock p n f w) =
     saveToStorage clock (bulk_loop clock f n p
       (w\<lparr>ticks := Suc (ticks w),
          state := (state w)\<lparr>lastBulkSelection :=
            Some \<lparr>bulk_count = n, bulk_startPage = p, bulk_timestamp = clock (ticks w)\<rparr>\<rparr>\<rparr>))"
  by (simp add: performBulkSelection_def Date_now_def Let_def)

lemma accepted_of_int:
  "1 \<le> count \<Longrightarrow> count \<le> 1000 \<Longrightarrow>
   \<not> (js_less_eq (Num (of_int count)) (Num 0) \<or> js_greater (Num (of_int count)) MAX_BULK_SELECTION)"
proof -
  assume a: "1 \<le> count" "count \<le> 1000"
  have "\<not> (of_int 1000 :: rat) < of_int count"
    using a(2) by (simp only: of_int_less_iff)
  then have "\<not> (1000 :: rat) < of_int count"
    by simp
  then show ?thesis
    using a(1) by (simp add: js_less_eq_def js_greater_def MAX_BULK_SELECTION_def)
qed

lemma lastBulkSelection_selectAllOnPage:
  "lastBulkSelection (state (selectAllOnPage clock p ids w)) = lastBulkSelection (state w)"
  by (simp add: selectAllOnPage_def Let_def updateTotalSelected_def)

lemma lastBulkSelection_bulkSelect:
  assumes "\<not> (js_less_eq n (Num 0) \<or> js_greater n MAX_BULK_SELECTION)"
  shows "lastBulkSelection (state (snd (bulkSelect clock p n f w)))
       = Some \<lparr>bulk_count = n, bulk_startPage = p, bulk_timestamp = clock (ticks w)\<rparr>"
proof -
  let ?b = "Some \<lparr>bulk_count = n, bulk_startPage = p, bulk_timestamp = clock (ticks w)\<rparr>"
  let ?w2 = "w\<lparr>ticks := Suc (ticks w), state := (state w)\<lparr>lastBulkSelection := ?b\<rparr>\<rparr>"
  have "lastBulkSelection (state (bulk_loop clock f n p ?w2)) = ?b"
    by (rule bulk_loop_state [where P = "\<lambda>s. lastBulkSelection s = ?b"])
       (simp_all add: lastBulkSelection_selectAllOnPage)
  then show ?thesis
    using assms by (simp add: snd_bulkSelect snd_performBulkSelection)
qed

lemma loop_trace_bulkSelect:
  assumes "1 \<le> count" "count \<le> 1000"
  shows "\<exists>n. loop_trace f count startPage n w
           (snd (bulkSelect clock startPage (Num (of_int count)) f w))"
proof -
  let ?w2 = "w\<lparr>ticks := Suc (ticks w),
          state := (state w)\<lparr>lastBulkSelection :=
            Some \<lparr>bulk_count = Num (of_int count), bulk_startPage = startPage,
                  bulk_timestamp = clock (ticks w)\<rparr>\<rparr>\<rparr>"
  let ?w3 = "bulk_loop clock f (Num (of_int count)) startPage ?w2"
  have w': "snd (bulkSelect clock startPage (Num (of_int count)) f w) = saveToStorage clock ?w3"
    using accepted_of_int [OF assms] by (simp add: snd_bulkSelect snd_performBulkSelection)
  obtain n where "loop_trace f count startPage n ?w2 ?w3"
    using loop_trace_bulk_loop by blast
  then have "loop_trace f count startPage n w (saveToStorage clock ?w3)"
    by (rule loop_trace_transfer) (simp_all add: console_saveToStorage)
  with w' show ?thesis by auto
qed

declare full_saveToStorage [simp]

lemma storageKey_selectAllOnPage [simp]:
  "storageKey (selectAllOnPage clock p ids w) = storageKey w"
  by (simp add: selectAllOnPage_def Let_def updateTotalSelected_def)

lemma full_selectAllOnPage [simp]:
  "full (storage (selectAllOnPage clock p ids w)) = full (storage w)"
  by (simp add: selectAllOnPage_def Let_def updateTotalSelected_def)

lemma full_bulk_loop:
  "full (storage (bulk_loop clock f rc cp w)) = full (storage w)
   \<and> storageKey (bulk_loop clock f rc cp w) = storageKey w"
  by (rule bulk_loop_rule
      [where R = "\<lambda>rc cp w w'. full (storage w') = full (storage w) \<and> storageKey w' = storageKey w"])
     simp_all

lemma saveToStorage_persists:
  assumes "\<not> full (storage w)"
  shows "localStorage_getItem (storageKey (saveToStorage clock w)) (storage (saveToStorage clock w))
       = Some (JSON_stringify (dataToStore (state (saveToStorage clock w))
                 (clock (ticks (saveToStorage clock w) - 1))))"
  using assms
  by (simp add: saveToStorage_def Date_now_def localStorage_setItem_def localStorage_getItem_def)

lemma bulkSelect_persists:
  assumes "\<not> (js_less_eq count (Num 0) \<or> js_greater count MAX_BULK_SELECTION)"
    and "\<not> full (storage w)"
  shows "localStorage_getItem (storageKey (snd (bulkSelect clock startPage count f w)))
           (storage (snd (bulkSelect clock startPage count f w)))
       = Some (JSON_stringify (dataToStore (state (snd (bulkSelect clock startPage count f w)))
                 (clock (ticks (snd (bulkSelect clock startPage count f w)) - 1))))"
proof -
  let ?w2 = "w\<lparr>ticks := Suc (ticks w),
          state := (state w)\<lparr>lastBulkSelection :=
            Some \<lparr>bulk_count = count, bulk_startPage = startPage,
                  bulk_timestamp = clock (ticks w)\<rparr>\<rparr>\<rparr>"
  let ?w3 = "bulk_loop clock f count startPage ?w2"
  have w': "snd (bulkSelect clock startPage count f w) = saveToStorage clock ?w3"
    using assms(1) by (simp add: snd_bulkSelect snd_performBulkSelection)
  have "\<not> full (storage ?w3)"
    using assms(2) by (simp add: full_bulk_loop)
  then show ?thesis
    unfolding w' by (rule saveToStorage_persists)
qed

lemma loop_traceD:
  assumes "loop_trace f rc cp n w w'"
  shows "fetched w' = fetched w @ map (\<lambda>k. cp + int k) [0..<n]"
    and "int n \<le> max 0 rc"
    and "0 < rc \<Longrightarrow> 0 < n"
    and "\<And>k. Suc k < n \<Longrightarrow> \<exists>ids. f (cp + int k) = Inr ids \<and> ids \<noteq> []"
    and "\<And>k ids. k < n \<Longrightarrow> f (cp + int k) = Inr ids \<Longrightarrow> ids \<noteq> [] \<Longrightarrow>
        \<exists>m. 0 < m \<and> map_of (pageSelections (state w')) (cp + int k) = Some (new_Set (take m ids))
             \<and> set (take m ids) \<subseteq> set (selectedIds (state w'))"
    and "0 < n \<Longrightarrow>
        (\<exists>e. f (cp + int n - 1) = Inl e) \<or> f (cp + int n - 1) = Inr [] \<or> 1000 \<le> cp + int n - 1
        \<or> rc \<le> (\<Sum>k<n. page_size f (cp + int k))"
    and "\<And>e. 0 < n \<Longrightarrow> f (cp + int n - 1) = Inl e \<Longrightarrow>
        Error_fetching_page (cp + int n - 1) e \<in> set (console w')"
    and "0 < n \<Longrightarrow> 1000 \<le> cp + int n - 1 \<Longrightarrow> f (cp + int n - 1) \<noteq> Inr [] \<Longrightarrow>
        (\<forall>e. f (cp + int n - 1) \<noteq> Inl e) \<Longrightarrow> Warn_too_many_pages \<in> set (console w')"
    and "\<And>k. Suc k < n \<Longrightarrow>
        (\<Sum>j<Suc k. page_size f (cp + int j)) < rc \<and> cp + int k < 1000"
    and "\<And>k ids. k < n \<Longrightarrow> f (cp + int k) = Inr ids \<Longrightarrow> ids \<noteq> [] \<Longrightarrow>
        (\<Sum>j<k. page_size f (cp + int j)) < rc \<and>
        map_of (pageSelections (state w')) (cp + int k)
          = Some (new_Set (take (nat (rc - (\<Sum>j<k. page_size f (cp + int j)))) ids)) \<and>
        set (take (nat (rc - (\<Sum>j<k. page_size f (cp + int j)))) ids)
          \<subseteq> set (selectedIds (state w'))"
proof -
  show x: "\<And>k ids. k < n \<Longrightarrow> f (cp + int k) = Inr ids \<Longrightarrow> ids \<noteq> [] \<Longrightarrow>
        (\<Sum>j<k. page_size f (cp + int j)) < rc \<and>
        map_of (pageSelections (state w')) (cp + int k)
          = Some (new_Set (take (nat (rc - (\<Sum>j<k. page_size f (cp + int j)))) ids)) \<and>
        set (take (nat (rc - (\<Sum>j<k. page_size f (cp + int j)))) ids)
          \<subseteq> set (selectedIds (state w'))"
    using assms unfolding loop_trace_def by blast
  show "\<exists>m. 0 < m \<and> map_of (pageSelections (state w')) (cp + int k) = Some (new_Set (take m ids))
             \<and> set (take m ids) \<subseteq> set (selectedIds (state w'))"
    if "k < n" "f (cp + int k) = Inr ids" "ids \<noteq> []" for k ids
  proof -
    let ?m = "nat (rc - (\<Sum>j<k. page_size f (cp + int j)))"
    have "0 < ?m \<and> map_of (pageSelections (state w')) (cp + int k) = Some (new_Set (take ?m ids))
             \<and> set (take ?m ids) \<subseteq> set (selectedIds (state w'))"
      using x [OF that] by simp
    then show ?thesis by (rule exI)
  qed
qed (use assms in \<open>unfold loop_trace_def, blast+\<close>)


subsection \<open>Saving and loading\<close>

lemma update_append:
  "k \<notin> fst ` set al \<Longrightarrow> AList.update k v al = al @ [(k, v)]"
  by (induction al) auto

lemma fold_update_distinct:
  "distinct (map fst (acc @ es)) \<Longrightarrow> fold (\<lambda>(k, v). AList.update k v) es acc = acc @ es"
proof (induction es arbitrary: acc)
  case Nil
  then show ?case by simp
next
  case (Cons e es)
  obtain k v where e: "e = (k, v)" by (cases e)
  with Cons.prems have "k \<notin> fst ` set acc" by auto
  then have "AList.update k v acc = acc @ [(k, v)]" by (rule update_append)
  moreover have "distinct (map fst ((acc @ [(k, v)]) @ es))"
    using Cons.prems e by simp
  ultimately show ?case
    using Cons.IH [of "acc @ [(k, v)]"] e by simp
qed

lemma Object_fromEntries_distinct:
  "distinct (map fst es) \<Longrightarrow> Object_fromEntries es = es"
  using fold_update_distinct [of "[]" es] by (simp add: Object_fromEntries_def)

lemma new_Map_distinct: "distinct (map fst es) \<Longrightarrow> new_Map es = es"
proof -
  assume "distinct (map fst es)"
  moreover have "Map_set k v = AList.update k v" for k :: 'a and v :: 'b
    by (simp add: fun_eq_iff Map_set_def)
  then have "new_Map es = fold (\<lambda>(k, v). AList.update k v) es []"
    by (simp add: new_Map_def)
  ultimately show "new_Map es = es"
    using fold_update_distinct [of "[]" es] by simp
qed

lemma set_Object_entries: "set (Object_entries obj) = set obj"
  by (auto simp: Object_entries_def)

lemma length_Object_entries: "length (Object_entries obj) = length obj"
  by (simp add: Object_entries_def sum_length_filter_compl)

lemma keys_Object_entries:
  assumes "distinct (map fst obj)"
  shows "distinct (map fst (Object_entries obj))"
proof (rule card_distinct)
  have "set (map fst (Object_entries obj)) = set (map fst obj)"
    by (simp add: set_Object_entries)
  then have "card (set (map fst (Object_entries obj))) = card (set (map fst obj))"
    by simp
  also have "\<dots> = length (map fst obj)"
    using assms by (rule distinct_card)
  finally show "card (set (map fst (Object_entries obj))) = length (map fst (Object_entries obj))"
    by (simp add: length_Object_entries)
qed

lemma map_of_Object_entries:
  assumes "distinct (map fst obj)"
  shows "map_of (Object_entries obj) = map_of obj"
  using assms keys_Object_entries [OF assms] set_Object_entries [of obj]
  by (simp add: map_of_inject_set)

lemma map_new_Set_distinct:
  "list_all (\<lambda>(p, ids). distinct ids) es \<Longrightarrow>
   map (\<lambda>(page, ids). (parseInt page, new_Set ids)) es = es"
  by (induction es) (auto simp: parseInt_def new_Set_distinct)

lemma list_all_Object_entries: "list_all P (Object_entries obj) = list_all P obj"
  by (simp add: list_all_iff set_Object_entries)

text \<open>What the stored pages become when they are read back.\<close>

lemma map_Array_from: "map (\<lambda>(page, ids). (page, Array_from ids)) ps = ps"
  by (induction ps) (auto simp: Array_from_def)

lemma pages_read_back:
  assumes "distinct (map fst ps)" and "list_all (\<lambda>(p, ids). distinct ids) ps"
  shows "new_Map (map (\<lambda>(page, ids). (parseInt page, new_Set ids))
           (Object_entries (Object_fromEntries (Object_entries (Object_fromEntries ps)))))
         = Object_entries (Object_entries ps)"
proof -
  have 2: "Object_fromEntries ps = ps"
    using assms(1) by (rule Object_fromEntries_distinct)
  have k1: "distinct (map fst (Object_entries ps))"
    using assms(1) by (rule keys_Object_entries)
  then have 3: "Object_fromEntries (Object_entries ps) = Object_entries ps"
    by (rule Object_fromEntries_distinct)
  have k2: "distinct (map fst (Object_entries (Object_entries ps)))"
    using k1 by (rule keys_Object_entries)
  have "list_all (\<lambda>(p, ids). distinct ids) (Object_entries (Object_entries ps))"
    using assms(2) by (simp add: list_all_Object_entries)
  then have 4: "map (\<lambda>(page, ids). (parseInt page, new_Set ids)) (Object_entries (Object_entries ps))
      = Object_entries (Object_entries ps)"
    by (rule map_new_Set_distinct)
  show ?thesis
    unfolding 2 3 4 using k2 by (rule new_Map_distinct)
qed

lemma map_of_pages_read_back:
  assumes "distinct (map fst ps)"
  shows "map_of (Object_entries (Object_entries ps)) = map_of ps"
  using assms by (simp add: map_of_Object_entries keys_Object_entries)

lemma reload_state:
  assumes wf: "well_formed (state w)"
    and room: "\<not> full (storage w)"
    and fresh: "clock' 0 - clock (ticks w) \<le> expiryTime"
  shows "state (constructor clock' (storageKey w) (storage (saveToStorage clock w)))
       = \<lparr>selectedIds = selectedIds (state w),
          pageSelections = Object_entries (Object_entries (pageSelections (state w))),
          totalSelected = totalSelected (state w),
          lastBulkSelection = None\<rparr>"
proof -
  have stored: "localStorage_getItem (storageKey w) (storage (saveToStorage clock w))
      = Some (JSON_stringify (dataToStore (state w) (clock (ticks w))))"
    using room by (simp add: localStorage_getItem_def items_saveToStorage)
  have sel: "new_Set (selectedIds (state w)) = selectedIds (state w)"
    using wf by (simp add: well_formed_def new_Set_distinct)
  have pages: "new_Map (map (\<lambda>(page, ids). (parseInt page, new_Set ids))
           (Object_entries (Object_fromEntries (Object_entries (Object_fromEntries
              (pageSelections (state w)))))))
         = Object_entries (Object_entries (pageSelections (state w)))"
    using wf by (intro pages_read_back) (simp_all add: well_formed_def)
  show ?thesis
    using fresh
    by (simp add: constructor_def loadFromStorage_def stored JSON_stringify_def JSON_parse_def
        dataToStore_def Date_now_def map_Array_from sel [unfolded Array_from_def] sel pages
        Array_from_def initial_state_def Let_def)
qed

lemma keys_fold_Map_set:
  "distinct (map fst acc) \<Longrightarrow> distinct (map fst (fold (\<lambda>(k, v). Map_set k v) es acc))"
  by (induction es arbitrary: acc) (auto simp: Map_set_def distinct_update)

lemma list_all_fold_Map_set:
  "list_all P acc \<Longrightarrow> list_all P es \<Longrightarrow> list_all P (fold (\<lambda>(k, v). Map_set k v) es acc)"
proof (induction es arbitrary: acc)
  case Nil
  then show ?case by simp
next
  case (Cons e es)
  obtain k v where e: "e = (k, v)" by (cases e)
  with Cons.prems have "list_all P (Map_set k v acc)"
    by (simp add: Map_set_def list_all_update)
  with Cons.prems Cons.IH [of "Map_set k v acc"] e show ?case by simp
qed

lemma well_formed_new_Map:
  "distinct (map fst (new_Map (map (\<lambda>(page, ids). (parseInt page, new_Set ids)) es)))
   \<and> list_all (\<lambda>(p, ids). distinct ids)
        (new_Map (map (\<lambda>(page, ids). (parseInt page, new_Set ids)) es))"
proof -
  have "list_all (\<lambda>(p, ids). distinct ids) (map (\<lambda>(page, ids). (parseInt page, new_Set ids)) es)"
    by (induction es) auto
  then show ?thesis
    unfolding new_Map_def by (simp add: keys_fold_Map_set list_all_fold_Map_set)
qed

lemma well_formed_loaded:
  assumes "well_formed (state w)"
  shows "well_formed (state (loadFromStorage clock w))"
proof (cases "localStorage_getItem (storageKey w) (storage w)")
  case None
  with assms show ?thesis by (simp add: loadFromStorage_def)
next
  case (Some stored)
  show ?thesis
  proof (cases "JSON_parse stored")
    case (Inl e)
    with Some assms show ?thesis
      by (simp add: loadFromStorage_def load_failed_def)
  next
    case (Inr data)
    with Some assms well_formed_new_Map show ?thesis
      by (auto simp: loadFromStorage_def load_failed_def Date_now_def Let_def well_formed_def
          split: option.splits)
  qed
qed

lemma well_formed_constructor: "well_formed (state (constructor clock key ls))"
  unfolding constructor_def
  by (rule well_formed_loaded) (simp add: well_formed_initial_state)

lemma well_formed_reachable:
  "well_formed (state (run clock calls (constructor clock' key ls)))"
  by (rule well_formed_run) (rule well_formed_constructor)

lemma not_JSON_is_purged:
  assumes "items ls key = Some Not_JSON"
  shows "state (constructor clock key ls) = initial_state
       \<and> items (storage (constructor clock key ls)) key = None"
  using assms
  by (simp add: constructor_def loadFromStorage_def localStorage_getItem_def JSON_parse_def
      load_failed_def localStorage_removeItem_def)

lemma empty_text_is_kept:
  assumes "items ls key = Some Empty_text"
  shows "state (constructor clock key ls) = initial_state
       \<and> items (storage (constructor clock key ls)) key = Some Empty_text"
  using assms
  by (simp add: constructor_def loadFromStorage_def localStorage_getItem_def)

section \<open>The claims\<close>

subsection \<open>Single calls\<close>

text \<open>
  Claim C10. When an identifier is in the sets of two different pages \<open>p1\<close> and \<open>p2\<close>,
  \<open>deselectRow(p1, id)\<close> deselects it globally (\<open>isRowSelected(id)\<close> is false afterwards)
  although it stays in the set of page \<open>p2\<close>.
\<close>

theorem deselectRow_other_page:
  assumes "p1 \<noteq> p2"
    and "i \<in> set (getPageSelections p1 w)"
    and "i \<in> set (getPageSelections p2 w)"
  shows "\<not> isRowSelected i (deselectRow clock p1 i w)
       \<and> i \<in> set (getPageSelections p2 (deselectRow clock p1 i w))"
  using assms
  by (auto simp: isRowSelected_def Set_has_def selectedIds_deselectRow getPageSelections_def
      Map_get_def pageSelections_deselectRow new_Set_def split: option.splits)

theorem deselectRow_other_page_witness:
  "(1::int) \<noteq> 2
   \<and> 7 \<in> set (getPageSelections 1
        (run (\<lambda>n. 0) [SelectRow 1 7, SelectRow 2 7]
           (constructor (\<lambda>n. 0) SELECTION_STATE \<lparr>items = Map.empty, full = False\<rparr>)))
   \<and> 7 \<in> set (getPageSelections 2
        (run (\<lambda>n. 0) [SelectRow 1 7, SelectRow 2 7]
           (constructor (\<lambda>n. 0) SELECTION_STATE \<lparr>items = Map.empty, full = False\<rparr>)))
   \<and> \<not> isRowSelected 7 (deselectRow (\<lambda>n. 0) 1 7
        (run (\<lambda>n. 0) [SelectRow 1 7, SelectRow 2 7]
           (constructor (\<lambda>n. 0) SELECTION_STATE \<lparr>items = Map.empty, full = False\<rparr>)))
   \<and> 7 \<in> set (getPageSelections 2 (deselectRow (\<lambda>n. 0) 1 7
        (run (\<lambda>n. 0) [SelectRow 1 7, SelectRow 2 7]
           (constructor (\<lambda>n. 0) SELECTION_STATE \<lparr>items = Map.empty, full = False\<rparr>))))"
proof -
  let ?w = "run (\<lambda>n. 0) [SelectRow 1 7, SelectRow 2 7]
           (constructor (\<lambda>n. 0) SELECTION_STATE \<lparr>items = Map.empty, full = False\<rparr>)"
  have a: "(1::int) \<noteq> 2" by simp
  have b: "7 \<in> set (getPageSelections 1 ?w)" by (simp add: model_defs)
  have c: "7 \<in> set (getPageSelections 2 ?w)" by (simp add: model_defs)
  show ?thesis
    using a b c deselectRow_other_page [OF a b c, of "\<lambda>n. 0"] by simp
qed

text \<open>
  Claim C4, as stated, fails: the guard of \<open>bulkSelect\<close> compares the count with \<open>0\<close> and
  with \<open>1000\<close> and never tests that it is an integer. The count \<open>1.5\<close> passes the guard:
  the call records \<open>lastBulkSelection\<close>, fetches pages \<open>1\<close> and \<open>2\<close>, selects a row, and its
  promise is fulfilled. \<open>NaN\<close> passes as well, since both comparisons are false: the call
  records \<open>lastBulkSelection\<close>, fetches no page, and its promise is fulfilled.
\<close>

theorem bulkSelect_invalid_count_counterexample:
  "(3 / 2 :: rat) \<notin> \<int>
   \<and> fst (bulkSelect (\<lambda>n. 0) 1 (Num (3 / 2)) (\<lambda>p. if p = 1 then Inr [5, 6, 7] else Inr [])
        (constructor (\<lambda>n. 0) SELECTION_STATE \<lparr>items = Map.empty, full = False\<rparr>)) = Inr Fulfilled
   \<and> lastBulkSelection (state (snd (bulkSelect (\<lambda>n. 0) 1 (Num (3 / 2)) (\<lambda>p. if p = 1 then Inr [5, 6, 7] else Inr [])
        (constructor (\<lambda>n. 0) SELECTION_STATE \<lparr>items = Map.empty, full = False\<rparr>))))
       = Some \<lparr>bulk_count = Num (3 / 2), bulk_startPage = 1, bulk_timestamp = 0\<rparr>
   \<and> fetched (snd (bulkSelect (\<lambda>n. 0) 1 (Num (3 / 2)) (\<lambda>p. if p = 1 then Inr [5, 6, 7] else Inr [])
        (constructor (\<lambda>n. 0) SELECTION_STATE \<lparr>items = Map.empty, full = False\<rparr>))) = [1, 2]
   \<and> selectedIds (state (snd (bulkSelect (\<lambda>n. 0) 1 (Num (3 / 2)) (\<lambda>p. if p = 1 then Inr [5, 6, 7] else Inr [])
        (constructor (\<lambda>n. 0) SELECTION_STATE \<lparr>items = Map.empty, full = False\<rparr>)))) = [5]
   \<and> fst (bulkSelect (\<lambda>n. 0) 1 NaN (\<lambda>p. if p = 1 then Inr [5, 6, 7] else Inr [])
        (constructor (\<lambda>n. 0) SELECTION_STATE \<lparr>items = Map.empty, full = False\<rparr>)) = Inr Fulfilled
   \<and> lastBulkSelection (state (snd (bulkSelect (\<lambda>n. 0) 1 NaN (\<lambda>p. if p = 1 then Inr [5, 6, 7] else Inr [])
        (constructor (\<lambda>n. 0) SELECTION_STATE \<lparr>items = Map.empty, full = False\<rparr>))))
       = Some \<lparr>bulk_count = NaN, bulk_startPage = 1, bulk_timestamp = 0\<rparr>
   \<and> fetched (snd (bulkSelect (\<lambda>n. 0) 1 NaN (\<lambda>p. if p = 1 then Inr [5, 6, 7] else Inr [])
        (constructor (\<lambda>n. 0) SELECTION_STATE \<lparr>items = Map.empty, full = False\<rparr>))) = []"
proof -
  have i: "(3 / 2 :: rat) \<notin> \<int>"
  proof
    assume "(3 / 2 :: rat) \<in> \<int>"
    then obtain n where "(3 / 2 :: rat) = of_int n"
      by (rule Ints_cases)
    then have "of_int \<lfloor>3 / 2 :: rat\<rfloor> = (3 / 2 :: rat)"
      using of_int_floor_cancel [of "3 / 2 :: rat"] by blast
    then show False
      by simp
  qed
  show ?thesis
    by (intro conjI i) (simp_all add: model_defs bulk_loop.simps)
qed

text \<open>
  Claim C4, amended. \<open>bulkSelect\<close> with a count that is at most \<open>0\<close> or greater than \<open>1000\<close>
  (a finite number, integral or not, or an infinity; in particular \<open>0\<close> and \<open>1001\<close>)
  throws the error "Invalid bulk selection count" at once and leaves the world as it was:
  the selection state (with \<open>lastBulkSelection\<close>), the storage and the list of fetched pages
  are unchanged. Every other count, that is \<open>NaN\<close> and every number above \<open>0\<close> and up to
  \<open>1000\<close>, integral or not, is accepted: \<open>lastBulkSelection\<close> is recorded with this count
  and the promise is fulfilled.
\<close>

theorem bulkSelect_invalid_count:
  "(count = NegInfinity \<or> count = PosInfinity \<or> (\<exists>r. count = Num r \<and> (r \<le> 0 \<or> 1000 < r)) \<longrightarrow>
      bulkSelect clock startPage count getPageData w
        = (Inl (Invalid_bulk_selection_count count), w))
   \<and> (count = NaN \<or> (\<exists>r. count = Num r \<and> 0 < r \<and> r \<le> 1000) \<longrightarrow>
      fst (bulkSelect clock startPage count getPageData w) = Inr Fulfilled
      \<and> lastBulkSelection (state (snd (bulkSelect clock startPage count getPageData w)))
          = Some \<lparr>bulk_count = count, bulk_startPage = startPage,
                  bulk_timestamp = clock (ticks w)\<rparr>)"
proof (intro conjI impI)
  assume "count = NegInfinity \<or> count = PosInfinity
      \<or> (\<exists>r. count = Num r \<and> (r \<le> 0 \<or> 1000 < r))"
  then have "js_less_eq count (Num 0) \<or> js_greater count MAX_BULK_SELECTION"
    by (auto simp: js_less_eq_def js_greater_def MAX_BULK_SELECTION_def)
  then show "bulkSelect clock startPage count getPageData w
      = (Inl (Invalid_bulk_selection_count count), w)"
    by (simp add: bulkSelect_def)
next
  assume "count = NaN \<or> (\<exists>r. count = Num r \<and> 0 < r \<and> r \<le> 1000)"
  then have ok: "\<not> (js_less_eq count (Num 0) \<or> js_greater count MAX_BULK_SELECTION)"
    by (auto simp: js_less_eq_def js_greater_def MAX_BULK_SELECTION_def)
  show "fst (bulkSelect clock startPage count getPageData w) = Inr Fulfilled"
    using ok by (rule fst_bulkSelect)
  show "lastBulkSelection (state (snd (bulkSelect clock startPage count getPageData w)))
      = Some \<lparr>bulk_count = count, bulk_startPage = startPage, bulk_timestamp = clock (ticks w)\<rparr>"
    using ok by (rule lastBulkSelection_bulkSelect)
qed

theorem bulkSelect_invalid_count_witness:
  "(\<exists>r. Num 0 = Num r \<and> (r \<le> 0 \<or> 1000 < r))
   \<and> bulkSelect (\<lambda>n. 0) 1 (Num 0) (\<lambda>p. Inr [1, 2, 3])
         (constructor (\<lambda>n. 0) SELECTION_STATE \<lparr>items = Map.empty, full = False\<rparr>)
       = (Inl (Invalid_bulk_selection_count (Num 0)),
          constructor (\<lambda>n. 0) SELECTION_STATE \<lparr>items = Map.empty, full = False\<rparr>)
   \<and> (\<exists>r. Num 1001 = Num r \<and> (r \<le> 0 \<or> 1000 < r))
   \<and> bulkSelect (\<lambda>n. 0) 1 (Num 1001) (\<lambda>p. Inr [1, 2, 3])
         (constructor (\<lambda>n. 0) SELECTION_STATE \<lparr>items = Map.empty, full = False\<rparr>)
       = (Inl (Invalid_bulk_selection_count (Num 1001)),
          constructor (\<lambda>n. 0) SELECTION_STATE \<lparr>items = Map.empty, full = False\<rparr>)
   \<and> (\<exists>r. Num (3 / 2) = Num r \<and> 0 < r \<and> r \<le> 1000)
   \<and> fst (bulkSelect (\<lambda>n. 0) 1 (Num (3 / 2)) (\<lambda>p. Inr [1, 2, 3])
         (constructor (\<lambda>n. 0) SELECTION_STATE \<lparr>items = Map.empty, full = False\<rparr>)) = Inr Fulfilled
   \<and> lastBulkSelection (state (snd (bulkSelect (\<lambda>n. 0) 1 (Num (3 / 2)) (\<lambda>p. Inr [1, 2, 3])
         (constructor (\<lambda>n. 0) SELECTION_STATE \<lparr>items = Map.empty, full = False\<rparr>))))
       = Some \<lparr>bulk_count = Num (3 / 2), bulk_startPage = 1,
               bulk_timestamp = (\<lambda>n. 0) (ticks (constructor (\<lambda>n. 0) SELECTION_STATE \<lparr>items = Map.empty, full = False\<rparr>))\<rparr>"
proof -
  let ?w = "constructor (\<lambda>n. 0) SELECTION_STATE \<lparr>items = Map.empty, full = False\<rparr>"
  have a: "\<exists>r. Num 0 = Num r \<and> (r \<le> 0 \<or> 1000 < r)" by simp
  have b: "\<exists>r. Num 1001 = Num r \<and> (r \<le> 0 \<or> 1000 < r)" by simp
  have c: "\<exists>r. Num (3 / 2) = Num r \<and> 0 < r \<and> r \<le> 1000"
    by (intro exI [of _ "3 / 2"]) simp
  show ?thesis
    using a b c
      bulkSelect_invalid_count [of "Num 0" "\<lambda>n. 0" 1 "\<lambda>p. Inr [1, 2, 3]" ?w]
      bulkSelect_invalid_count [of "Num 1001" "\<lambda>n. 0" 1 "\<lambda>p. Inr [1, 2, 3]" ?w]
      bulkSelect_invalid_count [of "Num (3 / 2)" "\<lambda>n. 0" 1 "\<lambda>p. Inr [1, 2, 3]" ?w]
    by blast
qed

text \<open>
  Claim C3, as stated, fails: \<open>selectAllOnPage\<close> only ever adds to \<open>selectedIds\<close>. After
  \<open>selectAllOnPage(1, [1, 2])\<close> and \<open>selectAllOnPage(1, [1])\<close> the identifier \<open>2\<close> is in the
  set of no page and is still selected.
\<close>

theorem selectAllOnPage_partial_list_counterexample:
  "isRowSelected 2
     (run (\<lambda>n. 0) [SelectAllOnPage 1 [1, 2]]
        (constructor (\<lambda>n. 0) SELECTION_STATE \<lparr>items = Map.empty, full = False\<rparr>))
   \<and> 2 \<in> set (getPageSelections 1
       (run (\<lambda>n. 0) [SelectAllOnPage 1 [1, 2]]
          (constructor (\<lambda>n. 0) SELECTION_STATE \<lparr>items = Map.empty, full = False\<rparr>)))
   \<and> 2 \<notin> set [1 :: int]
   \<and> pageSelections (state (selectAllOnPage (\<lambda>n. 0) 1 [1]
       (run (\<lambda>n. 0) [SelectAllOnPage 1 [1, 2]]
          (constructor (\<lambda>n. 0) SELECTION_STATE \<lparr>items = Map.empty, full = False\<rparr>))))
       = [(1, [1])]
   \<and> isRowSelected 2 (selectAllOnPage (\<lambda>n. 0) 1 [1]
       (run (\<lambda>n. 0) [SelectAllOnPage 1 [1, 2]]
          (constructor (\<lambda>n. 0) SELECTION_STATE \<lparr>items = Map.empty, full = False\<rparr>)))"
  by (simp add: model_defs)

text \<open>
  Claim C3, amended. \<open>selectAllOnPage(p, ids)\<close> with a list that omits an identifier of the
  set of page \<open>p\<close> removes the identifier from the set of page \<open>p\<close> and leaves its
  membership in \<open>selectedIds\<close> as it was, whether or not it is selected on another page.
\<close>

theorem selectAllOnPage_partial_list:
  assumes "i \<in> set (getPageSelections p w)" and "i \<notin> set ids"
  shows "i \<notin> set (getPageSelections p (selectAllOnPage clock p ids w))
       \<and> isRowSelected i (selectAllOnPage clock p ids w) = isRowSelected i w"
  using assms
  by (simp add: getPageSelections_def Map_get_def pageSelections_selectAllOnPage
      isRowSelected_def Set_has_def selectedIds_selectAllOnPage)

theorem selectAllOnPage_partial_list_witness:
  "2 \<in> set (getPageSelections 1
       (run (\<lambda>n. 0) [SelectAllOnPage 1 [1, 2]]
          (constructor (\<lambda>n. 0) SELECTION_STATE \<lparr>items = Map.empty, full = False\<rparr>)))
   \<and> 2 \<notin> set [1 :: int]
   \<and> 2 \<notin> set (getPageSelections 1 (selectAllOnPage (\<lambda>n. 0) 1 [1]
       (run (\<lambda>n. 0) [SelectAllOnPage 1 [1, 2]]
          (constructor (\<lambda>n. 0) SELECTION_STATE \<lparr>items = Map.empty, full = False\<rparr>))))
   \<and> isRowSelected 2 (selectAllOnPage (\<lambda>n. 0) 1 [1]
       (run (\<lambda>n. 0) [SelectAllOnPage 1 [1, 2]]
          (constructor (\<lambda>n. 0) SELECTION_STATE \<lparr>items = Map.empty, full = False\<rparr>)))
     = isRowSelected 2
       (run (\<lambda>n. 0) [SelectAllOnPage 1 [1, 2]]
          (constructor (\<lambda>n. 0) SELECTION_STATE \<lparr>items = Map.empty, full = False\<rparr>))"
proof -
  let ?w = "run (\<lambda>n. 0) [SelectAllOnPage 1 [1, 2]]
          (constructor (\<lambda>n. 0) SELECTION_STATE \<lparr>items = Map.empty, full = False\<rparr>)"
  have a: "2 \<in> set (getPageSelections 1 ?w)" by (simp add: model_defs)
  have b: "2 \<notin> set [1 :: int]" by simp
  show ?thesis
    using a b selectAllOnPage_partial_list [OF a b, of "\<lambda>n. 0"] by simp
qed

text \<open>
  Claim C8 at the input \<open>selectAllOnPage(3, [])\<close> on the empty state: the call stores the
  empty set for page \<open>3\<close>, where \<open>deselectRow\<close> would have removed the entry.
\<close>

theorem selectAllOnPage_empty_list_leaves_empty_entry:
  "pageSelections (state (selectAllOnPage (\<lambda>n. 0) 3 []
       (constructor (\<lambda>n. 0) SELECTION_STATE \<lparr>items = Map.empty, full = False\<rparr>)))
     = [(3, [])]"
  by (simp add: model_defs)

subsection \<open>Loading\<close>

text \<open>
  Claim C7 at a stored record that lacks \<open>pageSelections\<close>: construction does not fail and
  the entry is removed, but the state is not the empty one, since \<open>selectedIds\<close> has been
  assigned before \<open>Object.entries\<close> throws.
\<close>

theorem loadFromStorage_partial_record:
  "state (constructor (\<lambda>n. 0) SELECTION_STATE
      \<lparr>items = [SELECTION_STATE \<mapsto>
           JSON \<lparr>data_selectedIds = Some [1, 2], data_pageSelections = None,
                 data_totalSelected = 2, data_timestamp = Some 0\<rparr>],
        full = False\<rparr>)
     = \<lparr>selectedIds = [1, 2], pageSelections = [], totalSelected = 0, lastBulkSelection = None\<rparr>
   \<and> console (constructor (\<lambda>n. 0) SELECTION_STATE
      \<lparr>items = [SELECTION_STATE \<mapsto>
           JSON \<lparr>data_selectedIds = Some [1, 2], data_pageSelections = None,
                 data_totalSelected = 2, data_timestamp = Some 0\<rparr>],
        full = False\<rparr>) = [Warn_failed_to_load TypeError]
   \<and> items (storage (constructor (\<lambda>n. 0) SELECTION_STATE
      \<lparr>items = [SELECTION_STATE \<mapsto>
           JSON \<lparr>data_selectedIds = Some [1, 2], data_pageSelections = None,
                 data_totalSelected = 2, data_timestamp = Some 0\<rparr>],
        full = False\<rparr>)) SELECTION_STATE = None"
  by (simp add: model_defs)

subsection \<open>Invariants of runs\<close>

text \<open>
  Claim C5, as stated, fails: \<open>loadFromStorage\<close> takes \<open>totalSelected\<close> from the stored
  record, and \<open>bulkSelect\<close> counts the selected rows only when it selects a page. From a
  stored record with one selected row and \<open>totalSelected = 99\<close>, a \<open>bulkSelect\<close> whose first
  page is empty leaves \<open>getTotalSelected\<close> at \<open>99\<close>.
\<close>

theorem totalSelected_is_cardinality_counterexample:
  "selectedIds (state (run (\<lambda>n. 0) [BulkSelect 1 (Num 1) (\<lambda>p. Inr [])]
       (constructor (\<lambda>n. 0) SELECTION_STATE
          \<lparr>items = [SELECTION_STATE \<mapsto>
               JSON \<lparr>data_selectedIds = Some [1], data_pageSelections = Some [(1, [1])],
                     data_totalSelected = 99, data_timestamp = Some 0\<rparr>],
            full = False\<rparr>))) = [1]
   \<and> getTotalSelected (run (\<lambda>n. 0) [BulkSelect 1 (Num 1) (\<lambda>p. Inr [])]
       (constructor (\<lambda>n. 0) SELECTION_STATE
          \<lparr>items = [SELECTION_STATE \<mapsto>
               JSON \<lparr>data_selectedIds = Some [1], data_pageSelections = Some [(1, [1])],
                     data_totalSelected = 99, data_timestamp = Some 0\<rparr>],
            full = False\<rparr>)) = 99
   \<and> getTotalSelected (run (\<lambda>n. 0) [BulkSelect 1 (Num 1) (\<lambda>p. Inr [])]
       (constructor (\<lambda>n. 0) SELECTION_STATE
          \<lparr>items = [SELECTION_STATE \<mapsto>
               JSON \<lparr>data_selectedIds = Some [1], data_pageSelections = Some [(1, [1])],
                     data_totalSelected = 99, data_timestamp = Some 0\<rparr>],
            full = False\<rparr>))
     \<noteq> int (card (set (selectedIds (state (run (\<lambda>n. 0) [BulkSelect 1 (Num 1) (\<lambda>p. Inr [])]
       (constructor (\<lambda>n. 0) SELECTION_STATE
          \<lparr>items = [SELECTION_STATE \<mapsto>
               JSON \<lparr>data_selectedIds = Some [1], data_pageSelections = Some [(1, [1])],
                     data_totalSelected = 99, data_timestamp = Some 0\<rparr>],
            full = False\<rparr>))))))"
  by (simp add: model_defs bulk_loop.simps)

text \<open>
  Claim C5, amended. After every sequence of mutating calls (\<open>selectRow\<close>, \<open>deselectRow\<close>,
  \<open>selectAllOnPage\<close>, \<open>deselectAllOnPage\<close>, \<open>bulkSelect\<close>, \<open>clearAllSelections\<close>) that starts
  in a state where \<open>totalSelected\<close> is the cardinality of \<open>selectedIds\<close> (the empty state is
  one), or that contains a call other than \<open>bulkSelect\<close>, \<open>getTotalSelected\<close> returns the
  cardinality of \<open>selectedIds\<close>. The state is well-formed, as every state reachable from a
  construction is (\<open>well_formed_reachable\<close>).
\<close>

theorem totalSelected_is_cardinality:
  assumes "well_formed (state w)"
    and "totalSelected (state w) = int (card (set (selectedIds (state w))))
         \<or> list_ex (\<lambda>c. \<not> is_BulkSelect c) calls"
  shows "getTotalSelected (run clock calls w)
       = int (card (set (selectedIds (state (run clock calls w)))))"
proof -
  have "distinct (selectedIds (state w))"
    using assms(1) by (simp add: well_formed_def)
  then have "counted (state w) \<or> list_ex (\<lambda>c. \<not> is_BulkSelect c) calls"
    using assms(2) by (simp add: counted_def distinct_card)
  then have "counted (state (run clock calls w))"
    by (rule counted_run_after)
  moreover have "well_formed (state (run clock calls w))"
    using assms(1) by (rule well_formed_run)
  then have "distinct (selectedIds (state (run clock calls w)))"
    by (simp add: well_formed_def)
  ultimately show ?thesis
    by (simp add: getTotalSelected_def counted_def distinct_card)
qed

theorem totalSelected_is_cardinality_witness:
  "well_formed (state (constructor (\<lambda>n. 0) SELECTION_STATE \<lparr>items = Map.empty, full = False\<rparr>))
   \<and> totalSelected (state (constructor (\<lambda>n. 0) SELECTION_STATE \<lparr>items = Map.empty, full = False\<rparr>))
       = int (card (set (selectedIds (state (constructor (\<lambda>n. 0) SELECTION_STATE \<lparr>items = Map.empty, full = False\<rparr>)))))
   \<and> getTotalSelected (run (\<lambda>n. 0)
       [SelectRow 1 7, SelectRow 2 7, DeselectRow 1 7, SelectAllOnPage 1 [1, 2, 2],
        BulkSelect 3 (Num 2) (\<lambda>p. Inr [31, 32, 33])]
       (constructor (\<lambda>n. 0) SELECTION_STATE \<lparr>items = Map.empty, full = False\<rparr>))
     = int (card (set (selectedIds (state (run (\<lambda>n. 0)
       [SelectRow 1 7, SelectRow 2 7, DeselectRow 1 7, SelectAllOnPage 1 [1, 2, 2],
        BulkSelect 3 (Num 2) (\<lambda>p. Inr [31, 32, 33])]
       (constructor (\<lambda>n. 0) SELECTION_STATE \<lparr>items = Map.empty, full = False\<rparr>))))))
   \<and> well_formed (state (constructor (\<lambda>n. 0) SELECTION_STATE
          \<lparr>items = [SELECTION_STATE \<mapsto>
               JSON \<lparr>data_selectedIds = Some [1], data_pageSelections = Some [(1, [1])],
                     data_totalSelected = 99, data_timestamp = Some 0\<rparr>],
            full = False\<rparr>))
   \<and> list_ex (\<lambda>c. \<not> is_BulkSelect c) [BulkSelect 1 (Num 1) (\<lambda>p. Inr []), SelectRow 2 7]
   \<and> getTotalSelected (run (\<lambda>n. 0) [BulkSelect 1 (Num 1) (\<lambda>p. Inr []), SelectRow 2 7]
       (constructor (\<lambda>n. 0) SELECTION_STATE
          \<lparr>items = [SELECTION_STATE \<mapsto>
               JSON \<lparr>data_selectedIds = Some [1], data_pageSelections = Some [(1, [1])],
                     data_totalSelected = 99, data_timestamp = Some 0\<rparr>],
            full = False\<rparr>))
     = int (card (set (selectedIds (state (run (\<lambda>n. 0)
       [BulkSelect 1 (Num 1) (\<lambda>p. Inr []), SelectRow 2 7]
       (constructor (\<lambda>n. 0) SELECTION_STATE
          \<lparr>items = [SELECTION_STATE \<mapsto>
               JSON \<lparr>data_selectedIds = Some [1], data_pageSelections = Some [(1, [1])],
                     data_totalSelected = 99, data_timestamp = Some 0\<rparr>],
            full = False\<rparr>))))))"
proof -
  let ?w = "constructor (\<lambda>n. 0) SELECTION_STATE \<lparr>items = Map.empty, full = False\<rparr>"
  let ?r = "constructor (\<lambda>n. 0) SELECTION_STATE
          \<lparr>items = [SELECTION_STATE \<mapsto>
               JSON \<lparr>data_selectedIds = Some [1], data_pageSelections = Some [(1, [1])],
                     data_totalSelected = 99, data_timestamp = Some 0\<rparr>],
            full = False\<rparr>"
  have a: "well_formed (state ?w)"
    by (simp add: model_defs well_formed_def)
  have b: "totalSelected (state ?w) = int (card (set (selectedIds (state ?w))))"
    by (simp add: model_defs)
  have c: "well_formed (state ?r)"
    by (simp add: model_defs well_formed_def)
  have d: "list_ex (\<lambda>c. \<not> is_BulkSelect c) [BulkSelect 1 (Num 1) (\<lambda>p. Inr []), SelectRow 2 7]"
    by simp
  show ?thesis
    using a b c d
      totalSelected_is_cardinality [OF a disjI1 [OF b], of "\<lambda>n. 0"]
      totalSelected_is_cardinality [OF c disjI2 [OF d], of "\<lambda>n. 0"]
    by blast
qed

text \<open>
  Claim C1, as stated, fails: after \<open>selectRow(1, 7)\<close>, \<open>selectRow(2, 7)\<close> and
  \<open>deselectRow(1, 7)\<close> the identifier \<open>7\<close> is in the set of page \<open>2\<close> and not in
  \<open>selectedIds\<close>.
\<close>

theorem selectedIds_union_of_pages_counterexample:
  "set (selectedIds (state
      (run (\<lambda>n. 0) [SelectRow 1 7, SelectRow 2 7, DeselectRow 1 7]
         (constructor (\<lambda>n. 0) SELECTION_STATE \<lparr>items = Map.empty, full = False\<rparr>))))
   \<noteq> union_of_pages (state
      (run (\<lambda>n. 0) [SelectRow 1 7, SelectRow 2 7, DeselectRow 1 7]
         (constructor (\<lambda>n. 0) SELECTION_STATE \<lparr>items = Map.empty, full = False\<rparr>)))"
  by (simp add: model_defs union_of_pages_def)

text \<open>
  Claim C1, amended. After every sequence of mutating calls from the empty state in which
  every call is page-consistent (\<open>deselectRow\<close> names the only page on which the row is
  selected, \<open>deselectAllOnPage\<close> clears a page whose rows are selected on no other page,
  \<open>selectAllOnPage\<close> and \<open>bulkSelect\<close> drop no identifier from the set of a page),
  \<open>selectedIds\<close> is the union of the sets of all pages.
\<close>

theorem selectedIds_union_of_pages:
  assumes "state w = initial_state" and "page_consistent_run clock w calls"
  shows "set (selectedIds (state (run clock calls w))) = union_of_pages (state (run clock calls w))"
proof -
  have "well_formed (state (run clock calls w))"
    using assms(1) by (simp add: well_formed_run well_formed_initial_state)
  then have "distinct (map fst (pageSelections (state (run clock calls w))))"
    by (simp add: well_formed_def)
  moreover have "covered (state w)"
    using assms(1) by (simp add: covered_def initial_state_def new_Set_def new_Map_def)
  then have "covered (state (run clock calls w))"
    using assms(2) by (rule covered_run)
  ultimately show ?thesis
    by (rule covered_eq)
qed

theorem selectedIds_union_of_pages_witness:
  "state (constructor (\<lambda>n. 0) SELECTION_STATE \<lparr>items = Map.empty, full = False\<rparr>) = initial_state
   \<and> page_consistent_run (\<lambda>n. 0)
       (constructor (\<lambda>n. 0) SELECTION_STATE \<lparr>items = Map.empty, full = False\<rparr>)
       [SelectRow 1 11, SelectAllOnPage 2 [21, 22],
        BulkSelect 3 (Num 2) (\<lambda>p. if p = 3 then Inr [31, 32, 33] else Inr []),
        DeselectRow 1 11, DeselectAllOnPage 2]
   \<and> set (selectedIds (state (run (\<lambda>n. 0)
       [SelectRow 1 11, SelectAllOnPage 2 [21, 22],
        BulkSelect 3 (Num 2) (\<lambda>p. if p = 3 then Inr [31, 32, 33] else Inr []),
        DeselectRow 1 11, DeselectAllOnPage 2]
       (constructor (\<lambda>n. 0) SELECTION_STATE \<lparr>items = Map.empty, full = False\<rparr>))))
     = union_of_pages (state (run (\<lambda>n. 0)
       [SelectRow 1 11, SelectAllOnPage 2 [21, 22],
        BulkSelect 3 (Num 2) (\<lambda>p. if p = 3 then Inr [31, 32, 33] else Inr []),
        DeselectRow 1 11, DeselectAllOnPage 2]
       (constructor (\<lambda>n. 0) SELECTION_STATE \<lparr>items = Map.empty, full = False\<rparr>)))"
proof -
  let ?w = "constructor (\<lambda>n. 0) SELECTION_STATE \<lparr>items = Map.empty, full = False\<rparr>"
  let ?calls = "[SelectRow 1 11, SelectAllOnPage 2 [21, 22],
        BulkSelect 3 (Num 2) (\<lambda>p. if p = 3 then Inr [31, 32, 33] else Inr []),
        DeselectRow 1 11, DeselectAllOnPage 2]"
  have a: "state ?w = initial_state"
    by (simp add: model_defs)
  have b: "page_consistent_run (\<lambda>n. 0) ?w ?calls"
    by (simp add: model_defs bulk_loop.simps)
  show ?thesis
    using a b selectedIds_union_of_pages [OF a b] by simp
qed

subsection \<open>Bulk selection\<close>

text \<open>
  Claim C9, as stated, fails: the loop counts no iterations. Its ceiling is a test on the
  page number (\<open>currentPage > 1000\<close> after the increment). From start page \<open>2000\<close>, with
  count \<open>2\<close> and a fetcher whose pages hold one row each, the loop stops after one fetch,
  with the warning, although the page was not empty, one row is still to go and one page,
  not 1000, has been fetched. (A rejected fetch ends the loop as well, see claim C2.)
\<close>

theorem bulkSelect_terminates_counterexample:
  "fetched (snd (bulkSelect (\<lambda>n. 0) 2000 (Num 2) (\<lambda>p. Inr [p])
              (constructor (\<lambda>n. 0) SELECTION_STATE \<lparr>items = Map.empty, full = False\<rparr>))) = [2000]
   \<and> (\<lambda>p. Inr [p]) (2000 :: int) \<noteq> (Inr [] :: rejection + int list)
   \<and> page_size (\<lambda>p. Inr [p]) 2000 < 2
   \<and> selectedIds (state (snd (bulkSelect (\<lambda>n. 0) 2000 (Num 2) (\<lambda>p. Inr [p])
              (constructor (\<lambda>n. 0) SELECTION_STATE \<lparr>items = Map.empty, full = False\<rparr>)))) = [2000]
   \<and> console (snd (bulkSelect (\<lambda>n. 0) 2000 (Num 2) (\<lambda>p. Inr [p])
              (constructor (\<lambda>n. 0) SELECTION_STATE \<lparr>items = Map.empty, full = False\<rparr>))) = [Warn_too_many_pages]"
  by (simp add: model_defs bulk_loop.simps page_size_def)

text \<open>
  Claim C9, amended. For every integer count in \<open>1..1000\<close>, every start page and every
  fetcher,
  \<open>bulkSelect\<close> returns (its promise is fulfilled) after fetching \<open>n\<close> consecutive pages, with
  \<open>1 \<le> n \<le> count\<close>. The loop goes on exactly as long as nothing stops it: every page
  before the last delivered identifiers, left the count unmet (the identifiers delivered
  up to and including it are fewer than the count) and has a number below 1000; at the last
  page the fetch failed, or the page was empty, or the page number is 1000 or more (the
  loop stops when the next page number exceeds 1000, whatever the number of pages fetched),
  or the pages fetched cover the count (the remaining count is zero). When the loop stops
  at the ceiling after a non-empty page, the warning is on the console; what was selected
  before stays selected, and every page that delivered identifiers holds exactly the first
  of them that were still to go, all selected.
\<close>

theorem bulkSelect_terminates:
  assumes "1 \<le> count" and "count \<le> 1000"
  shows "\<exists>n. 1 \<le> n \<and> n \<le> nat count
       \<and> fst (bulkSelect clock startPage (Num (of_int count)) f w) = Inr Fulfilled
       \<and> fetched (snd (bulkSelect clock startPage (Num (of_int count)) f w))
           = fetched w @ map (\<lambda>k. startPage + int k) [0..<n]
       \<and> (\<forall>k. Suc k < n \<longrightarrow>
            (\<exists>ids. f (startPage + int k) = Inr ids \<and> ids \<noteq> [])
            \<and> (\<Sum>j<Suc k. page_size f (startPage + int j)) < count
            \<and> startPage + int k < 1000)
       \<and> ((\<exists>e. f (startPage + int n - 1) = Inl e) \<or> f (startPage + int n - 1) = Inr []
           \<or> 1000 \<le> startPage + int n - 1
           \<or> count \<le> (\<Sum>k<n. page_size f (startPage + int k)))
       \<and> (1000 \<le> startPage + int n - 1 \<longrightarrow> f (startPage + int n - 1) \<noteq> Inr [] \<longrightarrow>
            (\<forall>e. f (startPage + int n - 1) \<noteq> Inl e) \<longrightarrow>
            Warn_too_many_pages
              \<in> set (console (snd (bulkSelect clock startPage (Num (of_int count)) f w))))
       \<and> set (selectedIds (state w))
           \<subseteq> set (selectedIds (state (snd (bulkSelect clock startPage (Num (of_int count)) f w))))
       \<and> (\<forall>k ids. k < n \<longrightarrow> f (startPage + int k) = Inr ids \<longrightarrow> ids \<noteq> [] \<longrightarrow>
            (\<Sum>j<k. page_size f (startPage + int j)) < count
            \<and> getPageSelections (startPage + int k)
                  (snd (bulkSelect clock startPage (Num (of_int count)) f w))
                = new_Set (take (nat (count - (\<Sum>j<k. page_size f (startPage + int j)))) ids)
            \<and> set (take (nat (count - (\<Sum>j<k. page_size f (startPage + int j)))) ids)
                \<subseteq> set (selectedIds
                    (state (snd (bulkSelect clock startPage (Num (of_int count)) f w)))))"
proof -
  let ?w' = "snd (bulkSelect clock startPage (Num (of_int count)) f w)"
  let ?T = "\<lambda>k. \<Sum>j<k. page_size f (startPage + int j)"
  obtain n where t: "loop_trace f count startPage n w ?w'"
    using loop_trace_bulkSelect [OF assms] by blast
  note d = loop_traceD [OF t]
  have pos: "0 < n"
    using d(3) assms(1) by simp
  have n: "1 \<le> n" "n \<le> nat count"
    using pos d(2) assms(1) by simp_all
  have r: "fst (bulkSelect clock startPage (Num (of_int count)) f w) = Inr Fulfilled"
    using accepted_of_int [OF assms] by (rule fst_bulkSelect)
  have s: "set (selectedIds (state w)) \<subseteq> set (selectedIds (state ?w'))"
    using grows_bulkSelect [of startPage w clock "Num (of_int count)" f] unfolding grows_def
    by blast
  have before: "\<forall>k. Suc k < n \<longrightarrow>
      (\<exists>ids. f (startPage + int k) = Inr ids \<and> ids \<noteq> [])
      \<and> ?T (Suc k) < count \<and> startPage + int k < 1000"
    using d(4) d(9) by blast
  have pages: "\<forall>k ids. k < n \<longrightarrow> f (startPage + int k) = Inr ids \<longrightarrow> ids \<noteq> [] \<longrightarrow>
      ?T k < count
      \<and> getPageSelections (startPage + int k) ?w' = new_Set (take (nat (count - ?T k)) ids)
      \<and> set (take (nat (count - ?T k)) ids) \<subseteq> set (selectedIds (state ?w'))"
  proof (intro allI impI)
    fix k ids
    assume "k < n" "f (startPage + int k) = Inr ids" "ids \<noteq> []"
    from d(10) [OF this]
    show "?T k < count
      \<and> getPageSelections (startPage + int k) ?w' = new_Set (take (nat (count - ?T k)) ids)
      \<and> set (take (nat (count - ?T k)) ids) \<subseteq> set (selectedIds (state ?w'))"
      by (simp add: getPageSelections_def Map_get_def)
  qed
  have warn: "1000 \<le> startPage + int n - 1 \<longrightarrow> f (startPage + int n - 1) \<noteq> Inr [] \<longrightarrow>
            (\<forall>e. f (startPage + int n - 1) \<noteq> Inl e) \<longrightarrow> Warn_too_many_pages \<in> set (console ?w')"
    using d(8) [OF pos] by blast
  show ?thesis
    by (intro exI [of _ n] conjI n r d(1) before d(6) [OF pos] warn s pages)
qed

theorem bulkSelect_terminates_witness:
  "(1::int) \<le> 3 \<and> (3::int) \<le> 1000
   \<and> (\<exists>n. 1 \<le> n \<and> n \<le> nat 3
       \<and> fst (bulkSelect (\<lambda>n. 0) 999 (Num 3) (\<lambda>p. Inr [p])
              (constructor (\<lambda>n. 0) SELECTION_STATE \<lparr>items = Map.empty, full = False\<rparr>))
           = Inr Fulfilled
       \<and> fetched (snd (bulkSelect (\<lambda>n. 0) 999 (Num 3) (\<lambda>p. Inr [p])
              (constructor (\<lambda>n. 0) SELECTION_STATE \<lparr>items = Map.empty, full = False\<rparr>)))
           = fetched (constructor (\<lambda>n. 0) SELECTION_STATE \<lparr>items = Map.empty, full = False\<rparr>)
               @ map (\<lambda>k. 999 + int k) [0..<n]
       \<and> (\<forall>k. Suc k < n \<longrightarrow>
            (\<exists>ids. (\<lambda>p. Inr [p]) (999 + int k) = (Inr ids :: rejection + int list) \<and> ids \<noteq> [])
            \<and> (\<Sum>j<Suc k. page_size (\<lambda>p. Inr [p]) (999 + int j)) < 3
            \<and> 999 + int k < 1000)
       \<and> ((\<exists>e. (\<lambda>p. Inr [p]) (999 + int n - 1) = Inl (e :: rejection))
           \<or> (\<lambda>p. Inr [p]) (999 + int n - 1) = (Inr [] :: rejection + int list)
           \<or> 1000 \<le> 999 + int n - 1
           \<or> 3 \<le> (\<Sum>k<n. page_size (\<lambda>p. Inr [p]) (999 + int k)))
       \<and> (1000 \<le> 999 + int n - 1 \<longrightarrow>
            (\<lambda>p. Inr [p]) (999 + int n - 1) \<noteq> (Inr [] :: rejection + int list) \<longrightarrow>
            (\<forall>e. (\<lambda>p. Inr [p]) (999 + int n - 1) \<noteq> Inl (e :: rejection)) \<longrightarrow>
            Warn_too_many_pages \<in> set (console (snd (bulkSelect (\<lambda>n. 0) 999 (Num 3) (\<lambda>p. Inr [p])
              (constructor (\<lambda>n. 0) SELECTION_STATE \<lparr>items = Map.empty, full = False\<rparr>)))))
       \<and> set (selectedIds (state
              (constructor (\<lambda>n. 0) SELECTION_STATE \<lparr>items = Map.empty, full = False\<rparr>)))
           \<subseteq> set (selectedIds (state (snd (bulkSelect (\<lambda>n. 0) 999 (Num 3) (\<lambda>p. Inr [p])
              (constructor (\<lambda>n. 0) SELECTION_STATE \<lparr>items = Map.empty, full = False\<rparr>)))))
       \<and> (\<forall>k ids. k < n \<longrightarrow> (\<lambda>p. Inr [p]) (999 + int k) = (Inr ids :: rejection + int list) \<longrightarrow>
            ids \<noteq> [] \<longrightarrow>
            (\<Sum>j<k. page_size (\<lambda>p. Inr [p]) (999 + int j)) < 3
            \<and> getPageSelections (999 + int k) (snd (bulkSelect (\<lambda>n. 0) 999 (Num 3) (\<lambda>p. Inr [p])
              (constructor (\<lambda>n. 0) SELECTION_STATE \<lparr>items = Map.empty, full = False\<rparr>)))
                = new_Set (take (nat (3 - (\<Sum>j<k. page_size (\<lambda>p. Inr [p]) (999 + int j)))) ids)
            \<and> set (take (nat (3 - (\<Sum>j<k. page_size (\<lambda>p. Inr [p]) (999 + int j)))) ids)
                \<subseteq> set (selectedIds (state (snd (bulkSelect (\<lambda>n. 0) 999 (Num 3) (\<lambda>p. Inr [p])
              (constructor (\<lambda>n. 0) SELECTION_STATE \<lparr>items = Map.empty, full = False\<rparr>)))))))"
proof -
  have a: "(1::int) \<le> 3" by simp
  have b: "(3::int) \<le> 1000" by simp
  show ?thesis
    by (intro conjI a b
        bulkSelect_terminates [where count = 3, unfolded of_int_numeral, OF a b, of "\<lambda>n. 0" 999
          "\<lambda>p. Inr [p]"
          "constructor (\<lambda>n. 0) SELECTION_STATE \<lparr>items = Map.empty, full = False\<rparr>"])
qed

text \<open>A run that ends at the ceiling with one row still to go.\<close>

lemma bulkSelect_at_the_ceiling:
  "fetched (snd (bulkSelect (\<lambda>n. 0) 999 (Num 3) (\<lambda>p. Inr [p])
      (constructor (\<lambda>n. 0) SELECTION_STATE \<lparr>items = Map.empty, full = False\<rparr>))) = [999, 1000]
   \<and> console (snd (bulkSelect (\<lambda>n. 0) 999 (Num 3) (\<lambda>p. Inr [p])
      (constructor (\<lambda>n. 0) SELECTION_STATE \<lparr>items = Map.empty, full = False\<rparr>)))
      = [Warn_too_many_pages]
   \<and> selectedIds (state (snd (bulkSelect (\<lambda>n. 0) 999 (Num 3) (\<lambda>p. Inr [p])
      (constructor (\<lambda>n. 0) SELECTION_STATE \<lparr>items = Map.empty, full = False\<rparr>)))) = [999, 1000]"
  by (simp add: model_defs bulk_loop.simps)

text \<open>
  Claim C2, as stated, fails: the \<open>catch\<close> block inside the loop logs the error and leaves the
  loop, and nothing rethrows it. With a fetcher that rejects for page \<open>2\<close>, the promise of
  \<open>bulkSelect(1, 7, f)\<close> is fulfilled, not rejected.
\<close>

theorem bulkSelect_fetch_failure_counterexample:
  "fetched (snd (bulkSelect (\<lambda>n. 0) 1 (Num 7) (\<lambda>p. if p = 1 then Inr [1, 2, 3, 4, 5] else Inl ''boom'')
      (constructor (\<lambda>n. 0) SELECTION_STATE \<lparr>items = Map.empty, full = False\<rparr>))) = [1, 2]
   \<and> (\<lambda>p. if p = 1 then Inr [1, 2, 3, 4, 5] else Inl ''boom'') (2 :: int)
       = (Inl ''boom'' :: rejection + int list)
   \<and> fst (bulkSelect (\<lambda>n. 0) 1 (Num 7) (\<lambda>p. if p = 1 then Inr [1, 2, 3, 4, 5] else Inl ''boom'')
      (constructor (\<lambda>n. 0) SELECTION_STATE \<lparr>items = Map.empty, full = False\<rparr>))
       \<noteq> Inr (Rejected ''boom'')
   \<and> fst (bulkSelect (\<lambda>n. 0) 1 (Num 7) (\<lambda>p. if p = 1 then Inr [1, 2, 3, 4, 5] else Inl ''boom'')
      (constructor (\<lambda>n. 0) SELECTION_STATE \<lparr>items = Map.empty, full = False\<rparr>))
       = Inr Fulfilled"
  by (simp add: model_defs bulk_loop.simps)

text \<open>
  Claim C2, amended. When the fetcher rejects for a page \<open>q\<close> during
  \<open>bulkSelect(startPage, count, f)\<close> with an integer count in \<open>1..1000\<close>, then \<open>q\<close> is the last page
  fetched, the error is logged on the console and not propagated (the promise is
  fulfilled), what was selected before stays selected, every earlier page of the run holds
  a non-empty initial segment of its identifiers, all selected, and the state is persisted
  (when the storage takes the write).
\<close>

theorem bulkSelect_fetch_failure:
  assumes "1 \<le> count" and "count \<le> 1000"
    and "q \<in> set (drop (length (fetched w)) (fetched (snd (bulkSelect clock startPage (Num (of_int count)) f w))))"
    and "f q = Inl e"
  shows "fst (bulkSelect clock startPage (Num (of_int count)) f w) = Inr Fulfilled
       \<and> (\<exists>n. 0 < n
            \<and> fetched (snd (bulkSelect clock startPage (Num (of_int count)) f w))
                = fetched w @ map (\<lambda>k. startPage + int k) [0..<n]
            \<and> q = startPage + int n - 1)
       \<and> Error_fetching_page q e \<in> set (console (snd (bulkSelect clock startPage (Num (of_int count)) f w)))
       \<and> set (selectedIds (state w))
           \<subseteq> set (selectedIds (state (snd (bulkSelect clock startPage (Num (of_int count)) f w))))
       \<and> (\<forall>p \<in> set (drop (length (fetched w)) (fetched (snd (bulkSelect clock startPage (Num (of_int count)) f w)))).
            p \<noteq> q \<longrightarrow>
            (\<exists>ids m. f p = Inr ids \<and> 0 < m
               \<and> getPageSelections p (snd (bulkSelect clock startPage (Num (of_int count)) f w)) = new_Set (take m ids)
               \<and> set (take m ids)
                   \<subseteq> set (selectedIds (state (snd (bulkSelect clock startPage (Num (of_int count)) f w))))))
       \<and> (\<not> full (storage w) \<longrightarrow>
            localStorage_getItem (storageKey (snd (bulkSelect clock startPage (Num (of_int count)) f w)))
                (storage (snd (bulkSelect clock startPage (Num (of_int count)) f w)))
              = Some (JSON_stringify (dataToStore (state (snd (bulkSelect clock startPage (Num (of_int count)) f w)))
                        (clock (ticks (snd (bulkSelect clock startPage (Num (of_int count)) f w)) - 1)))))"
proof -
  let ?w' = "snd (bulkSelect clock startPage (Num (of_int count)) f w)"
  obtain n where t: "loop_trace f count startPage n w ?w'"
    using loop_trace_bulkSelect [OF assms(1,2)] by blast
  note d = loop_traceD [OF t]
  have pages: "drop (length (fetched w)) (fetched ?w') = map (\<lambda>k. startPage + int k) [0..<n]"
    using d(1) by simp
  have pos: "0 < n"
    using d(3) assms(1) by simp
  obtain k where k: "k < n" "q = startPage + int k"
    using assms(3) unfolding pages by auto
  have last: "Suc k = n"
  proof (rule ccontr)
    assume "Suc k \<noteq> n"
    with k have "Suc k < n" by simp
    from d(4) [OF this] k assms(4) show False by simp
  qed
  then have q: "q = startPage + int n - 1"
    using k by auto
  have r: "fst (bulkSelect clock startPage (Num (of_int count)) f w) = Inr Fulfilled"
    using accepted_of_int [OF assms(1,2)] by (rule fst_bulkSelect)
  have stop: "\<exists>n. 0 < n \<and> fetched ?w' = fetched w @ map (\<lambda>k. startPage + int k) [0..<n]
      \<and> q = startPage + int n - 1"
    using pos d(1) q by blast
  have err: "Error_fetching_page q e \<in> set (console ?w')"
    using d(7) [OF pos, of e] assms(4) q by simp
  have s: "set (selectedIds (state w)) \<subseteq> set (selectedIds (state ?w'))"
    using grows_bulkSelect [of startPage w clock "Num (of_int count)" f] unfolding grows_def
    by blast
  have prior: "\<forall>p \<in> set (drop (length (fetched w)) (fetched ?w')). p \<noteq> q \<longrightarrow>
      (\<exists>ids m. f p = Inr ids \<and> 0 < m \<and> getPageSelections p ?w' = new_Set (take m ids)
         \<and> set (take m ids) \<subseteq> set (selectedIds (state ?w')))"
  proof (intro ballI impI)
    fix p
    assume "p \<in> set (drop (length (fetched w)) (fetched ?w'))" and "p \<noteq> q"
    then obtain j where j: "j < n" "p = startPage + int j"
      unfolding pages by auto
    with \<open>p \<noteq> q\<close> k last have "Suc j < n" by auto
    from d(4) [OF this] obtain ids where ids: "f p = Inr ids" "ids \<noteq> []"
      using j by auto
    from d(5) [OF j(1)] ids j obtain m where "0 < m"
      "map_of (pageSelections (state ?w')) p = Some (new_Set (take m ids))"
      "set (take m ids) \<subseteq> set (selectedIds (state ?w'))"
      by blast
    then have "f p = Inr ids \<and> 0 < m \<and> getPageSelections p ?w' = new_Set (take m ids)
         \<and> set (take m ids) \<subseteq> set (selectedIds (state ?w'))"
      using ids by (simp add: getPageSelections_def Map_get_def)
    then show "\<exists>ids m. f p = Inr ids \<and> 0 < m \<and> getPageSelections p ?w' = new_Set (take m ids)
         \<and> set (take m ids) \<subseteq> set (selectedIds (state ?w'))"
      by blast
  qed
  have saved: "\<not> full (storage w) \<longrightarrow>
      localStorage_getItem (storageKey ?w') (storage ?w')
        = Some (JSON_stringify (dataToStore (state ?w') (clock (ticks ?w' - 1))))"
    using bulkSelect_persists [OF accepted_of_int [OF assms(1,2)]] by blast
  show ?thesis
    by (intro conjI r stop err s prior saved)
qed

theorem bulkSelect_fetch_failure_witness:
  "(1::int) \<le> 7 \<and> (7::int) \<le> 1000
   \<and> 2 \<in> set (drop (length (fetched (constructor (\<lambda>n. 0) SELECTION_STATE \<lparr>items = Map.empty, full = False\<rparr>)))
       (fetched (snd (bulkSelect (\<lambda>n. 0) 1 (Num 7)
        (\<lambda>p. if p = 1 then Inr [1, 2, 3, 4, 5] else Inl ''boom'')
        (constructor (\<lambda>n. 0) SELECTION_STATE \<lparr>items = Map.empty, full = False\<rparr>)))))
   \<and> (\<lambda>p. if p = 1 then Inr [1, 2, 3, 4, 5] else Inl ''boom'') (2 :: int) = (Inl ''boom'' :: rejection + int list)
   \<and> fst (bulkSelect (\<lambda>n. 0) 1 (Num 7)
        (\<lambda>p. if p = 1 then Inr [1, 2, 3, 4, 5] else Inl ''boom'')
        (constructor (\<lambda>n. 0) SELECTION_STATE \<lparr>items = Map.empty, full = False\<rparr>)) = Inr Fulfilled
   \<and> (\<exists>n. 0 < n
        \<and> fetched (snd (bulkSelect (\<lambda>n. 0) 1 (Num 7)
        (\<lambda>p. if p = 1 then Inr [1, 2, 3, 4, 5] else Inl ''boom'')
        (constructor (\<lambda>n. 0) SELECTION_STATE \<lparr>items = Map.empty, full = False\<rparr>)))
            = fetched (constructor (\<lambda>n. 0) SELECTION_STATE \<lparr>items = Map.empty, full = False\<rparr>) @ map (\<lambda>k. 1 + int k) [0..<n]
        \<and> 2 = 1 + int n - 1)
   \<and> Error_fetching_page 2 ''boom'' \<in> set (console (snd (bulkSelect (\<lambda>n. 0) 1 (Num 7)
        (\<lambda>p. if p = 1 then Inr [1, 2, 3, 4, 5] else Inl ''boom'')
        (constructor (\<lambda>n. 0) SELECTION_STATE \<lparr>items = Map.empty, full = False\<rparr>))))
   \<and> set (selectedIds (state (constructor (\<lambda>n. 0) SELECTION_STATE \<lparr>items = Map.empty, full = False\<rparr>)))
       \<subseteq> set (selectedIds (state (snd (bulkSelect (\<lambda>n. 0) 1 (Num 7)
        (\<lambda>p. if p = 1 then Inr [1, 2, 3, 4, 5] else Inl ''boom'')
        (constructor (\<lambda>n. 0) SELECTION_STATE \<lparr>items = Map.empty, full = False\<rparr>)))))
   \<and> (\<exists>ids m. (\<lambda>p. if p = 1 then Inr [1, 2, 3, 4, 5] else Inl ''boom'') (1 :: int) = Inr ids \<and> 0 < m
        \<and> getPageSelections 1 (snd (bulkSelect (\<lambda>n. 0) 1 (Num 7)
        (\<lambda>p. if p = 1 then Inr [1, 2, 3, 4, 5] else Inl ''boom'')
        (constructor (\<lambda>n. 0) SELECTION_STATE \<lparr>items = Map.empty, full = False\<rparr>))) = new_Set (take m ids)
        \<and> set (take m ids) \<subseteq> set (selectedIds (state (snd (bulkSelect (\<lambda>n. 0) 1 (Num 7)
        (\<lambda>p. if p = 1 then Inr [1, 2, 3, 4, 5] else Inl ''boom'')
        (constructor (\<lambda>n. 0) SELECTION_STATE \<lparr>items = Map.empty, full = False\<rparr>))))))
   \<and> \<not> full (storage (constructor (\<lambda>n. 0) SELECTION_STATE \<lparr>items = Map.empty, full = False\<rparr>))
   \<and> localStorage_getItem (storageKey (snd (bulkSelect (\<lambda>n. 0) 1 (Num 7)
        (\<lambda>p. if p = 1 then Inr [1, 2, 3, 4, 5] else Inl ''boom'')
        (constructor (\<lambda>n. 0) SELECTION_STATE \<lparr>items = Map.empty, full = False\<rparr>)))) (storage (snd (bulkSelect (\<lambda>n. 0) 1 (Num 7)
        (\<lambda>p. if p = 1 then Inr [1, 2, 3, 4, 5] else Inl ''boom'')
        (constructor (\<lambda>n. 0) SELECTION_STATE \<lparr>items = Map.empty, full = False\<rparr>))))
       = Some (JSON_stringify (dataToStore (state (snd (bulkSelect (\<lambda>n. 0) 1 (Num 7)
        (\<lambda>p. if p = 1 then Inr [1, 2, 3, 4, 5] else Inl ''boom'')
        (constructor (\<lambda>n. 0) SELECTION_STATE \<lparr>items = Map.empty, full = False\<rparr>))))
           ((\<lambda>n. 0) (ticks (snd (bulkSelect (\<lambda>n. 0) 1 (Num 7)
        (\<lambda>p. if p = 1 then Inr [1, 2, 3, 4, 5] else Inl ''boom'')
        (constructor (\<lambda>n. 0) SELECTION_STATE \<lparr>items = Map.empty, full = False\<rparr>))) - 1))))"
proof -
  let ?w = "(constructor (\<lambda>n. 0) SELECTION_STATE \<lparr>items = Map.empty, full = False\<rparr>)"
  let ?f = "(\<lambda>p. if p = 1 then Inr [1, 2, 3, 4, 5] else Inl ''boom'')"
  let ?w' = "snd (bulkSelect (\<lambda>n. 0) 1 (Num 7) ?f ?w)"
  have a: "(1::int) \<le> 7" by simp
  have b: "(7::int) \<le> 1000" by simp
  have pages: "drop (length (fetched ?w)) (fetched ?w') = [1, 2]"
    by (simp add: model_defs bulk_loop.simps)
  have c: "2 \<in> set (drop (length (fetched ?w)) (fetched ?w'))"
    unfolding pages by simp
  have d: "?f (2 :: int) = (Inl ''boom'' :: rejection + int list)"
    by simp
  have e: "1 \<in> set (drop (length (fetched ?w)) (fetched ?w'))"
    unfolding pages by simp
  have g: "\<not> full (storage ?w)"
    by (simp add: model_defs)
  note t = bulkSelect_fetch_failure [where count = 7, unfolded of_int_numeral, OF a b c d]
  have prior: "\<exists>ids m. ?f (1 :: int) = Inr ids \<and> 0 < m
        \<and> getPageSelections 1 ?w' = new_Set (take m ids)
        \<and> set (take m ids) \<subseteq> set (selectedIds (state ?w'))"
    using t e by fastforce
  have saved: "localStorage_getItem (storageKey ?w') (storage ?w')
       = Some (JSON_stringify (dataToStore (state ?w') ((\<lambda>n. 0) (ticks ?w' - 1))))"
    using t g by blast
  show ?thesis
    using a b c d t prior g saved by blast
qed

text \<open>
  Claim C6, as stated, fails: \<open>lastBulkSelection\<close> is not part of the stored record. After
  a bulk selection, saving and loading within the expiry window gives a state without the
  metadata.
\<close>

theorem save_then_load_counterexample:
  "\<not> full (storage (run (\<lambda>n. 0) [BulkSelect 1 (Num 2) (\<lambda>p. if p = 1 then Inr [5, 6, 7] else Inr [])]
        (constructor (\<lambda>n. 0) SELECTION_STATE \<lparr>items = Map.empty, full = False\<rparr>)))
   \<and> (\<lambda>n. 0) (0 :: nat) - (\<lambda>n. 0) (ticks (run (\<lambda>n. 0)
        [BulkSelect 1 (Num 2) (\<lambda>p. if p = 1 then Inr [5, 6, 7] else Inr [])]
        (constructor (\<lambda>n. 0) SELECTION_STATE \<lparr>items = Map.empty, full = False\<rparr>))) \<le> expiryTime
   \<and> lastBulkSelection (state (run (\<lambda>n. 0)
        [BulkSelect 1 (Num 2) (\<lambda>p. if p = 1 then Inr [5, 6, 7] else Inr [])]
        (constructor (\<lambda>n. 0) SELECTION_STATE \<lparr>items = Map.empty, full = False\<rparr>)))
       = Some \<lparr>bulk_count = Num 2, bulk_startPage = 1, bulk_timestamp = 0\<rparr>
   \<and> lastBulkSelection (state (constructor (\<lambda>n. 0) SELECTION_STATE
        (storage (saveToStorage (\<lambda>n. 0) (run (\<lambda>n. 0)
           [BulkSelect 1 (Num 2) (\<lambda>p. if p = 1 then Inr [5, 6, 7] else Inr [])]
           (constructor (\<lambda>n. 0) SELECTION_STATE \<lparr>items = Map.empty, full = False\<rparr>))))))
       = None
   \<and> state (constructor (\<lambda>n. 0) SELECTION_STATE
        (storage (saveToStorage (\<lambda>n. 0) (run (\<lambda>n. 0)
           [BulkSelect 1 (Num 2) (\<lambda>p. if p = 1 then Inr [5, 6, 7] else Inr [])]
           (constructor (\<lambda>n. 0) SELECTION_STATE \<lparr>items = Map.empty, full = False\<rparr>)))))
       \<noteq> state (run (\<lambda>n. 0)
           [BulkSelect 1 (Num 2) (\<lambda>p. if p = 1 then Inr [5, 6, 7] else Inr [])]
           (constructor (\<lambda>n. 0) SELECTION_STATE \<lparr>items = Map.empty, full = False\<rparr>))"
proof -
  let ?w = "run (\<lambda>n. 0) [BulkSelect 1 (Num 2) (\<lambda>p. if p = 1 then Inr [5, 6, 7] else Inr [])]
        (constructor (\<lambda>n. 0) SELECTION_STATE \<lparr>items = Map.empty, full = False\<rparr>)"
  have st: "state ?w = \<lparr>selectedIds = [5, 6], pageSelections = [(1, [5, 6])], totalSelected = 2,
      lastBulkSelection = Some \<lparr>bulk_count = Num 2, bulk_startPage = 1, bulk_timestamp = 0\<rparr>\<rparr>"
    by (simp add: model_defs bulk_loop.simps)
  have room: "\<not> full (storage ?w)"
    by (simp add: model_defs bulk_loop.simps full_bulk_loop)
  have wf: "well_formed (state ?w)"
    unfolding st by (simp add: well_formed_def)
  have fresh: "(\<lambda>n. 0) (0 :: nat) - (\<lambda>n. 0) (ticks ?w) \<le> expiryTime"
    by (simp add: expiryTime_def STORAGE_EXPIRY_HOURS_def)
  have key: "storageKey ?w = SELECTION_STATE"
    by (simp add: model_defs bulk_loop.simps full_bulk_loop)
  have re: "lastBulkSelection (state (constructor (\<lambda>n. 0) SELECTION_STATE
        (storage (saveToStorage (\<lambda>n. 0) ?w)))) = None"
    using reload_state [where w = ?w and clock' = "\<lambda>n. 0" and clock = "\<lambda>n. 0"] wf room fresh
    unfolding key by simp
  show ?thesis
    using room fresh st re by auto
qed

text \<open>
  Claim C6, amended. For every well-formed state (every state reachable from a
  construction by mutating calls is well-formed, \<open>well_formed_reachable\<close>), saving it and
  loading it in a new session, when the write succeeds and the saved timestamp is within
  the expiry window at load time, gives the same \<open>selectedIds\<close>, the same set for every
  page and the same \<open>totalSelected\<close>; \<open>lastBulkSelection\<close> is not persisted and is absent
  after loading.
\<close>

theorem save_then_load:
  assumes "well_formed (state w)"
    and "\<not> full (storage w)"
    and "clock' 0 - clock (ticks w) \<le> expiryTime"
  shows "selectedIds (state (constructor clock' (storageKey w) (storage (saveToStorage clock w))))
           = selectedIds (state w)
       \<and> map_of (pageSelections
             (state (constructor clock' (storageKey w) (storage (saveToStorage clock w)))))
           = map_of (pageSelections (state w))
       \<and> totalSelected (state (constructor clock' (storageKey w) (storage (saveToStorage clock w))))
           = totalSelected (state w)
       \<and> lastBulkSelection
             (state (constructor clock' (storageKey w) (storage (saveToStorage clock w))))
           = None"
proof -
  have "distinct (map fst (pageSelections (state w)))"
    using assms(1) by (simp add: well_formed_def)
  then have "map_of (Object_entries (Object_entries (pageSelections (state w))))
      = map_of (pageSelections (state w))"
    by (rule map_of_pages_read_back)
  then show ?thesis
    unfolding reload_state [where clock' = clock' and clock = clock, OF assms] by simp
qed

theorem save_then_load_witness:
  "well_formed (state (run (\<lambda>n. 0) [SelectRow 7 70, SelectRow 2 20, SelectAllOnPage (- 1) [5, 5, 6]]
        (constructor (\<lambda>n. 0) SELECTION_STATE \<lparr>items = Map.empty, full = False\<rparr>)))
   \<and> \<not> full (storage (run (\<lambda>n. 0) [SelectRow 7 70, SelectRow 2 20, SelectAllOnPage (- 1) [5, 5, 6]]
        (constructor (\<lambda>n. 0) SELECTION_STATE \<lparr>items = Map.empty, full = False\<rparr>)))
   \<and> (\<lambda>n. 1000) (0 :: nat) - (\<lambda>n. 0) (ticks (run (\<lambda>n. 0) [SelectRow 7 70, SelectRow 2 20, SelectAllOnPage (- 1) [5, 5, 6]]
        (constructor (\<lambda>n. 0) SELECTION_STATE \<lparr>items = Map.empty, full = False\<rparr>))) \<le> expiryTime
   \<and> selectedIds (state (constructor (\<lambda>n. 1000) (storageKey (run (\<lambda>n. 0) [SelectRow 7 70, SelectRow 2 20, SelectAllOnPage (- 1) [5, 5, 6]]
        (constructor (\<lambda>n. 0) SELECTION_STATE \<lparr>items = Map.empty, full = False\<rparr>)))
        (storage (saveToStorage (\<lambda>n. 0) (run (\<lambda>n. 0) [SelectRow 7 70, SelectRow 2 20, SelectAllOnPage (- 1) [5, 5, 6]]
        (constructor (\<lambda>n. 0) SELECTION_STATE \<lparr>items = Map.empty, full = False\<rparr>))))))
       = selectedIds (state (run (\<lambda>n. 0) [SelectRow 7 70, SelectRow 2 20, SelectAllOnPage (- 1) [5, 5, 6]]
        (constructor (\<lambda>n. 0) SELECTION_STATE \<lparr>items = Map.empty, full = False\<rparr>)))
   \<and> map_of (pageSelections (state (constructor (\<lambda>n. 1000) (storageKey (run (\<lambda>n. 0) [SelectRow 7 70, SelectRow 2 20, SelectAllOnPage (- 1) [5, 5, 6]]
        (constructor (\<lambda>n. 0) SELECTION_STATE \<lparr>items = Map.empty, full = False\<rparr>)))
        (storage (saveToStorage (\<lambda>n. 0) (run (\<lambda>n. 0) [SelectRow 7 70, SelectRow 2 20, SelectAllOnPage (- 1) [5, 5, 6]]
        (constructor (\<lambda>n. 0) SELECTION_STATE \<lparr>items = Map.empty, full = False\<rparr>)))))))
       = map_of (pageSelections (state (run (\<lambda>n. 0) [SelectRow 7 70, SelectRow 2 20, SelectAllOnPage (- 1) [5, 5, 6]]
        (constructor (\<lambda>n. 0) SELECTION_STATE \<lparr>items = Map.empty, full = False\<rparr>))))
   \<and> totalSelected (state (constructor (\<lambda>n. 1000) (storageKey (run (\<lambda>n. 0) [SelectRow 7 70, SelectRow 2 20, SelectAllOnPage (- 1) [5, 5, 6]]
        (constructor (\<lambda>n. 0) SELECTION_STATE \<lparr>items = Map.empty, full = False\<rparr>)))
        (storage (saveToStorage (\<lambda>n. 0) (run (\<lambda>n. 0) [SelectRow 7 70, SelectRow 2 20, SelectAllOnPage (- 1) [5, 5, 6]]
        (constructor (\<lambda>n. 0) SELECTION_STATE \<lparr>items = Map.empty, full = False\<rparr>))))))
       = totalSelected (state (run (\<lambda>n. 0) [SelectRow 7 70, SelectRow 2 20, SelectAllOnPage (- 1) [5, 5, 6]]
        (constructor (\<lambda>n. 0) SELECTION_STATE \<lparr>items = Map.empty, full = False\<rparr>)))
   \<and> lastBulkSelection (state (constructor (\<lambda>n. 1000) (storageKey (run (\<lambda>n. 0) [SelectRow 7 70, SelectRow 2 20, SelectAllOnPage (- 1) [5, 5, 6]]
        (constructor (\<lambda>n. 0) SELECTION_STATE \<lparr>items = Map.empty, full = False\<rparr>)))
        (storage (saveToStorage (\<lambda>n. 0) (run (\<lambda>n. 0) [SelectRow 7 70, SelectRow 2 20, SelectAllOnPage (- 1) [5, 5, 6]]
        (constructor (\<lambda>n. 0) SELECTION_STATE \<lparr>items = Map.empty, full = False\<rparr>))))))
       = None"
proof -
  let ?w = "(run (\<lambda>n. 0) [SelectRow 7 70, SelectRow 2 20, SelectAllOnPage (- 1) [5, 5, 6]]
        (constructor (\<lambda>n. 0) SELECTION_STATE \<lparr>items = Map.empty, full = False\<rparr>))"
  have a: "well_formed (state ?w)"
    by (rule well_formed_reachable)
  have b: "\<not> full (storage ?w)"
    by (simp add: model_defs)
  have c: "(\<lambda>n. 1000) (0 :: nat) - (\<lambda>n. 0) (ticks ?w) \<le> expiryTime"
    by (simp add: expiryTime_def STORAGE_EXPIRY_HOURS_def)
  note t = save_then_load [where w = ?w and clock' = "\<lambda>n. 1000" and clock = "\<lambda>n. 0", OF a b c]
  show ?thesis
    by (intro conjI a b c t [THEN conjunct1] t [THEN conjunct2, THEN conjunct1]
        t [THEN conjunct2, THEN conjunct2, THEN conjunct1]
        t [THEN conjunct2, THEN conjunct2, THEN conjunct2])
qed

text \<open>The pages come back in the order in which an object enumerates its properties.\<close>

lemma pages_after_reload:
  "pageSelections (state (run (\<lambda>n. 0) [SelectRow 7 70, SelectRow 2 20, SelectAllOnPage (- 1) [5, 5, 6]]
        (constructor (\<lambda>n. 0) SELECTION_STATE \<lparr>items = Map.empty, full = False\<rparr>))) = [(7, [70]), (2, [20]), (- 1, [5, 6])]
   \<and> pageSelections (state (constructor (\<lambda>n. 1000) (storageKey (run (\<lambda>n. 0) [SelectRow 7 70, SelectRow 2 20, SelectAllOnPage (- 1) [5, 5, 6]]
        (constructor (\<lambda>n. 0) SELECTION_STATE \<lparr>items = Map.empty, full = False\<rparr>)))
        (storage (saveToStorage (\<lambda>n. 0) (run (\<lambda>n. 0) [SelectRow 7 70, SelectRow 2 20, SelectAllOnPage (- 1) [5, 5, 6]]
        (constructor (\<lambda>n. 0) SELECTION_STATE \<lparr>items = Map.empty, full = False\<rparr>)))))) = [(2, [20]), (7, [70]), (- 1, [5, 6])]"
  by (simp add: model_defs)

end
